theory Spec2Isabelle
  imports Main "HOL-Library.Word"
begin

section \<open>Task blocking (pkg/sentry/kernel/task\_block.go)\<close>

subsection \<open>Channels of \<open>struct{}\<close>\<close>

text \<open>
  Every channel of the block core carries \<open>struct{}\<close>, so a channel is the number of
  values a receive can take without waiting (\<open>len(ch)\<close>) and its capacity. The event
  channel \<open>C\<close> is owned by the caller and is passed and returned by value; it is taken
  to be distinct from the task's own two channels.
\<close>

record chan =
  clen :: nat
  ccap :: nat

text \<open>\<open>case <-ch:\<close> of a \<open>select\<close> is ready when the channel holds a value.\<close>

definition ready :: "chan \<Rightarrow> bool" where
  "ready c = (0 < clen c)"

definition recv :: "chan \<Rightarrow> chan" where
  "recv c = c\<lparr>clen := clen c - 1\<rparr>"

text \<open>\<open>select { case ch <- struct{}{}: default: }\<close>: a send that drops when the channel is full.\<close>

definition trySend :: "chan \<Rightarrow> chan" where
  "trySend c = (if clen c < ccap c then c\<lparr>clen := clen c + 1\<rparr> else c)"

text \<open>\<open>select { case <-ch: default: }\<close>: a receive that does nothing on an empty channel.\<close>

definition tryRecv :: "chan \<Rightarrow> chan" where
  "tryRecv c = (if ready c then recv c else c)"

subsection \<open>Errors, durations, timers\<close>

datatype errno = ETIMEDOUT | ErrInterrupted

text \<open>A Go \<open>error\<close>: \<open>None\<close> is \<open>nil\<close>.\<close>

type_synonym error = "errno option"

text \<open>\<open>time.Duration\<close> and the nanoseconds of a \<open>ktime.Time\<close> are \<open>int64\<close>.\<close>

type_synonym Duration = "64 word"
type_synonym Time = "64 word"

text \<open>
  Modelled from the spec: \<open>ktime.Setting\<close> and the one-shot timer of package \<open>ktime\<close>.
  A timer is its current setting; \<open>Setting{}\<close> is the zero value. \<open>Set\<close> installs a setting and returns the previous one. When an armed timer
  expires it becomes disabled and its listener is notified once.
\<close>

record Setting =
  Enabled :: bool
  Next :: Time

definition zeroSetting :: Setting where
  "zeroSetting = \<lparr>Enabled = False, Next = 0\<rparr>"

datatype TaskGoroutineState =
  TaskGoroutineRunning
  | TaskGoroutineBlockedInterruptible
  | TaskGoroutineBlockedUninterruptible
  | TaskGoroutineExiting

subsection \<open>What the block core calls but does not define\<close>

text \<open>
  The address-space hooks (\<open>Task.Activate\<close>, \<open>Task.Deactivate\<close>), the goroutine-state
  accounting (\<open>accountTaskGoroutineEnter\<close>, \<open>accountTaskGoroutineLeave\<close>,
  \<open>touchGostateTime\<close>), the platform context (\<open>t.p.PrepareSleep\<close>, \<open>t.p.Interrupt\<close>),
  the arithmetic of \<open>ktime.Time\<close> and the build constant \<open>sync.RaceEnabled\<close> live in
  other files. They are parameters of the model: \<open>'as\<close> is the state the address-space
  hooks act on, \<open>'gs\<close> the accounting state, \<open>'p\<close> the platform context.
\<close>

record ('as, 'gs, 'p) deps =
  Activate :: "'as \<Rightarrow> 'as"
  Deactivate :: "'as \<Rightarrow> 'as"
  accountTaskGoroutineEnter :: "TaskGoroutineState \<Rightarrow> 'gs \<Rightarrow> 'gs"
  accountTaskGoroutineLeave :: "TaskGoroutineState \<Rightarrow> 'gs \<Rightarrow> 'gs"
  touchGostateTime :: "'gs \<Rightarrow> 'gs"
  PrepareSleep :: "'p \<Rightarrow> 'p"
  PlatformInterrupt :: "'p \<Rightarrow> 'p"
  TimeAdd :: "Time \<Rightarrow> Duration \<Rightarrow> Time"
  TimeSub :: "Time \<Rightarrow> Time \<Rightarrow> Duration"
  RaceEnabled :: bool

subsection \<open>The task\<close>

text \<open>
  The fields of \<open>Task\<close> that the block core reads or writes. \<open>genericTimer\<close> is the
  heap cell of the timer that \<open>BlockWithDeadlineFrom\<close> creates with \<open>clock.NewTimer\<close>
  and destroys before it returns (\<open>None\<close>: no such timer exists); its listener is the
  task's \<open>blockingTimerListener\<close>, as for \<open>blockingTimer\<close>. \<open>yields\<close> counts the calls
  of \<open>runtime.Gosched\<close>.
\<close>

record ('as, 'gs, 'p) Task =
  addressSpace :: 'as
  gosched :: 'gs
  platformCtx :: 'p
  interruptChan :: chan
  blockingTimerChan :: chan
  blockingTimer :: Setting
  genericTimer :: "Setting option"
  yields :: nat

text \<open>The second argument of \<open>block\<close> is \<open>nil\<close> or the task's \<open>blockingTimerChan\<close>.\<close>

datatype chanref = nilChan | blockingTimerChanRef

definition lenRef :: "('as, 'gs, 'p) Task \<Rightarrow> chanref \<Rightarrow> nat" where
  "lenRef t r = (case r of nilChan \<Rightarrow> 0 | blockingTimerChanRef \<Rightarrow> clen (blockingTimerChan t))"

subsection \<open>The world around one call\<close>

text \<open>
  The code blocks in a \<open>select\<close> while other goroutines send. One call is made
  sequential by fixing what the rest of the system does around it:
  \<^item> \<open>onTaskGoroutine\<close>: the caller runs on the task goroutine (the precondition of
    every entry point, checked by \<open>assertTaskGoroutine\<close>);
  \<^item> \<open>posted\<close>: how many values other goroutines send on \<open>C\<close> while the task waits;
  \<^item> \<open>interruptedByOther\<close>: another goroutine calls \<open>t.interrupt()\<close> while the task waits;
  \<^item> \<open>expiry\<close>: when the armed timer expires, if it does;
  \<^item> \<open>choice\<close>: the order in which the runtime's \<open>select\<close> looks at the arms; the
    first ready arm in \<open>choice\<close> followed by the three arms is taken, so every choice of
    the runtime among the ready arms is some \<open>choice\<close>;
  \<^item> \<open>nowBefore\<close>, \<open>nowAfter\<close>: the two readings of the monotonic clock in
    \<open>BlockWithTimeout\<close>.
\<close>

datatype wake = WokenByEvent | WokenByInterrupt | WokenByTimer

datatype expiry = NoExpiry | ExpiresBeforeWait | ExpiresDuringWait | ExpiresAfterWake

record env =
  onTaskGoroutine :: bool
  posted :: nat
  interruptedByOther :: bool
  expiry :: expiry
  choice :: "wake list"
  nowBefore :: Time
  nowAfter :: Time

datatype 'a outcome = Returns 'a | Panics | BlocksForever

subsection \<open>Interrupt slot\<close>

definition interruptSelf :: "('as, 'gs, 'p) Task \<Rightarrow> ('as, 'gs, 'p) Task" where
  "interruptSelf t = t\<lparr>interruptChan := trySend (interruptChan t)\<rparr>"

definition interrupt :: "('as, 'gs, 'p) deps \<Rightarrow> ('as, 'gs, 'p) Task \<Rightarrow> ('as, 'gs, 'p) Task" where
  "interrupt d t = (let t1 = interruptSelf t in t1\<lparr>platformCtx := PlatformInterrupt d (platformCtx t1)\<rparr>)"

definition Interrupt :: "('as, 'gs, 'p) deps \<Rightarrow> ('as, 'gs, 'p) Task \<Rightarrow> ('as, 'gs, 'p) Task" where
  "Interrupt d t = interrupt d t"

definition interrupted :: "('as, 'gs, 'p) Task \<Rightarrow> bool" where
  "interrupted t = (clen (interruptChan t) \<noteq> 0)"

definition unsetInterrupted :: "('as, 'gs, 'p) Task \<Rightarrow> ('as, 'gs, 'p) Task" where
  "unsetInterrupted t = t\<lparr>interruptChan := tryRecv (interruptChan t)\<rparr>"

definition Interrupted :: "('as, 'gs, 'p) deps \<Rightarrow> ('as, 'gs, 'p) Task \<Rightarrow> bool \<times> ('as, 'gs, 'p) Task" where
  "Interrupted d t =
     (if interrupted t then (True, t)
      else (False, t\<lparr>gosched := touchGostateTime d (gosched t)\<rparr>))"

subsection \<open>Sleep accounting\<close>

text \<open>
  Modelled from the spec: \<open>assertTaskGoroutine\<close>, which is defined elsewhere in the
  package; it aborts unless the caller runs on the task goroutine.
\<close>

definition assertTaskGoroutine :: "env \<Rightarrow> bool" where
  "assertTaskGoroutine e = onTaskGoroutine e"

definition prepareSleep ::
  "('as, 'gs, 'p) deps \<Rightarrow> env \<Rightarrow> ('as, 'gs, 'p) Task \<Rightarrow> ('as, 'gs, 'p) Task option" where
  "prepareSleep d e t =
     (if \<not> assertTaskGoroutine e then None
      else Some (t\<lparr>platformCtx := PrepareSleep d (platformCtx t),
                   addressSpace := Deactivate d (addressSpace t),
                   gosched := accountTaskGoroutineEnter d TaskGoroutineBlockedInterruptible (gosched t)\<rparr>))"

definition completeSleep :: "('as, 'gs, 'p) deps \<Rightarrow> ('as, 'gs, 'p) Task \<Rightarrow> ('as, 'gs, 'p) Task" where
  "completeSleep d t =
     t\<lparr>gosched := accountTaskGoroutineLeave d TaskGoroutineBlockedInterruptible (gosched t),
       addressSpace := Activate d (addressSpace t)\<rparr>"

definition UninterruptibleSleepStart ::
  "('as, 'gs, 'p) deps \<Rightarrow> env \<Rightarrow> bool \<Rightarrow> ('as, 'gs, 'p) Task \<Rightarrow> ('as, 'gs, 'p) Task option" where
  "UninterruptibleSleepStart d e deactivate t =
     (if \<not> assertTaskGoroutine e then None
      else let t1 = (if deactivate then t\<lparr>addressSpace := Deactivate d (addressSpace t)\<rparr> else t)
           in Some (t1\<lparr>gosched := accountTaskGoroutineEnter d TaskGoroutineBlockedUninterruptible (gosched t1)\<rparr>))"

definition UninterruptibleSleepFinish ::
  "('as, 'gs, 'p) deps \<Rightarrow> bool \<Rightarrow> ('as, 'gs, 'p) Task \<Rightarrow> ('as, 'gs, 'p) Task" where
  "UninterruptibleSleepFinish d activate t =
     (let t1 = t\<lparr>gosched := accountTaskGoroutineLeave d TaskGoroutineBlockedUninterruptible (gosched t)\<rparr>
      in if activate then t1\<lparr>addressSpace := Activate d (addressSpace t1)\<rparr> else t1)"

subsection \<open>Timer expiry and the wait\<close>

text \<open>
  Modelled from the spec: the expiry of a one-shot timer. An armed timer becomes
  disabled and its listener \<open>blockingTimerListener\<close> posts to the single-slot
  \<open>blockingTimerChan\<close>; a value that finds the slot full is dropped.
\<close>

definition expire :: "('as, 'gs, 'p) Task \<Rightarrow> ('as, 'gs, 'p) Task" where
  "expire t =
     (let t1 = (if Enabled (blockingTimer t)
                then t\<lparr>blockingTimer := (blockingTimer t)\<lparr>Enabled := False\<rparr>,
                       blockingTimerChan := trySend (blockingTimerChan t)\<rparr>
                else t)
      in case genericTimer t1 of
           None \<Rightarrow> t1
         | Some s \<Rightarrow>
             if Enabled s
             then t1\<lparr>genericTimer := Some (s\<lparr>Enabled := False\<rparr>),
                     blockingTimerChan := trySend (blockingTimerChan t1)\<rparr>
             else t1)"

definition expireAt :: "expiry \<Rightarrow> env \<Rightarrow> ('as, 'gs, 'p) Task \<Rightarrow> ('as, 'gs, 'p) Task" where
  "expireAt w e t = (if expiry e = w then expire t else t)"

text \<open>What the other goroutines do while the task waits in the \<open>select\<close>.\<close>

definition arrive ::
  "('as, 'gs, 'p) deps \<Rightarrow> env \<Rightarrow> ('as, 'gs, 'p) Task \<Rightarrow> chan \<Rightarrow> ('as, 'gs, 'p) Task \<times> chan" where
  "arrive d e t C =
     (let t1 = (if interruptedByOther e then interrupt d t else t);
          t2 = expireAt ExpiresDuringWait e t1
      in (t2, C\<lparr>clen := clen C + posted e\<rparr>))"

text \<open>The blocking three-way \<open>select\<close>: the first ready arm in the runtime's order, if any.\<close>

definition armReady :: "bool \<Rightarrow> bool \<Rightarrow> bool \<Rightarrow> wake \<Rightarrow> bool" where
  "armReady rc ri rt w = (case w of WokenByEvent \<Rightarrow> rc | WokenByInterrupt \<Rightarrow> ri | WokenByTimer \<Rightarrow> rt)"

definition select3 :: "wake list \<Rightarrow> bool \<Rightarrow> bool \<Rightarrow> bool \<Rightarrow> wake option" where
  "select3 order rc ri rt =
     find (armReady rc ri rt) (order @ [WokenByEvent, WokenByInterrupt, WokenByTimer])"

subsection \<open>\<open>block\<close>\<close>

text \<open>
  The blocking \<open>select\<close> of \<open>block\<close>: the task waits while the others act, then the
  runtime takes a ready arm. \<open>None\<close>: no arm ever becomes ready. The trace region
  around the \<open>select\<close> leaves no state behind and is left out, and so are \<open>BlockOn\<close>
  and \<open>BlockWithTimeoutOn\<close>, which wrap \<open>Block\<close> and \<open>BlockWithTimeout\<close> in the
  registration of a waiter entry.
\<close>

definition waitSelect ::
  "('as, 'gs, 'p) deps \<Rightarrow> env \<Rightarrow> ('as, 'gs, 'p) Task \<Rightarrow> chan \<Rightarrow> chanref
     \<Rightarrow> wake option \<times> ('as, 'gs, 'p) Task \<times> chan" where
  "waitSelect d e t C timerChan =
     (let (t1, C1) = arrive d e t C
      in (select3 (choice e) (ready C1) (ready (interruptChan t1)) (0 < lenRef t1 timerChan), t1, C1))"

text \<open>The task as the \<open>select\<close> of \<open>block\<close> finds it, once the fast path has been missed.\<close>

definition asleep ::
  "('as, 'gs, 'p) deps \<Rightarrow> env \<Rightarrow> ('as, 'gs, 'p) Task \<Rightarrow> chanref \<Rightarrow> ('as, 'gs, 'p) Task option" where
  "asleep d e t timerChan =
     (case prepareSleep d e t of
        None \<Rightarrow> None
      | Some t1 \<Rightarrow> Some (if 0 < lenRef t1 timerChan then t1\<lparr>yields := yields t1 + 1\<rparr> else t1))"

definition block ::
  "('as, 'gs, 'p) deps \<Rightarrow> env \<Rightarrow> ('as, 'gs, 'p) Task \<Rightarrow> chan \<Rightarrow> chanref
     \<Rightarrow> (error \<times> ('as, 'gs, 'p) Task \<times> chan) outcome" where
  "block d e t C timerChan =
     (if RaceEnabled d \<and> \<not> assertTaskGoroutine e then Panics
      else if ready C then Returns (None, t, recv C)
      else case asleep d e t timerChan of
        None \<Rightarrow> Panics
      | Some t2 \<Rightarrow>
          (case waitSelect d e t2 C timerChan of
             (None, t3, C3) \<Rightarrow> BlocksForever
           | (Some WokenByEvent, t3, C3) \<Rightarrow> Returns (None, completeSleep d t3, recv C3)
           | (Some WokenByInterrupt, t3, C3) \<Rightarrow>
               Returns (Some ErrInterrupted,
                        completeSleep d (interruptSelf (t3\<lparr>interruptChan := recv (interruptChan t3)\<rparr>)),
                        C3)
           | (Some WokenByTimer, t3, C3) \<Rightarrow>
               Returns (Some ETIMEDOUT,
                        completeSleep d (t3\<lparr>blockingTimerChan := recv (blockingTimerChan t3)\<rparr>),
                        C3)))"

definition Block ::
  "('as, 'gs, 'p) deps \<Rightarrow> env \<Rightarrow> ('as, 'gs, 'p) Task \<Rightarrow> chan
     \<Rightarrow> (error \<times> ('as, 'gs, 'p) Task \<times> chan) outcome" where
  "Block d e t C = block d e t C nilChan"

subsection \<open>Blocking with a deadline\<close>

text \<open>
  Modelled from the spec: \<open>SetClock\<close> and \<open>Set\<close> of the \<open>ktime\<close> timers and
  \<open>Clock.NewTimer\<close> / \<open>Timer.Destroy\<close>, which are defined in package \<open>ktime\<close>.
  \<open>SetClock\<close> arms the timer with the given setting; \<open>Set\<close> installs a setting and
  returns the setting it replaces, after the timer has caught up with the clock: an
  expiry that is due by then (\<open>due\<close>) is delivered first.
\<close>

definition SetClock :: "Setting \<Rightarrow> ('as, 'gs, 'p) Task \<Rightarrow> ('as, 'gs, 'p) Task" where
  "SetClock s t = t\<lparr>blockingTimer := s\<rparr>"

definition SetBlockingTimer ::
  "bool \<Rightarrow> Setting \<Rightarrow> ('as, 'gs, 'p) Task \<Rightarrow> Setting \<times> ('as, 'gs, 'p) Task" where
  "SetBlockingTimer due s t =
     (let t1 = (if due then expire t else t) in (blockingTimer t1, t1\<lparr>blockingTimer := s\<rparr>))"

definition NewTimer :: "('as, 'gs, 'p) Task \<Rightarrow> ('as, 'gs, 'p) Task" where
  "NewTimer t = t\<lparr>genericTimer := Some zeroSetting\<rparr>"

definition Destroy :: "('as, 'gs, 'p) Task \<Rightarrow> ('as, 'gs, 'p) Task" where
  "Destroy t = t\<lparr>genericTimer := None\<rparr>"

definition SetGenericTimer ::
  "bool \<Rightarrow> Setting \<Rightarrow> ('as, 'gs, 'p) Task \<Rightarrow> Setting \<times> ('as, 'gs, 'p) Task" where
  "SetGenericTimer due s t =
     (let t1 = (if due then expire t else t)
      in (case genericTimer t1 of None \<Rightarrow> zeroSetting | Some old \<Rightarrow> old,
          t1\<lparr>genericTimer := Some s\<rparr>))"

definition blockWithDeadlineFromSampledClock ::
  "('as, 'gs, 'p) deps \<Rightarrow> env \<Rightarrow> ('as, 'gs, 'p) Task \<Rightarrow> chan \<Rightarrow> Time
     \<Rightarrow> (error \<times> ('as, 'gs, 'p) Task \<times> chan) outcome" where
  "blockWithDeadlineFromSampledClock d e t C deadline =
     (let t1 = SetClock \<lparr>Enabled = True, Next = deadline\<rparr> t
      in case block d e (expireAt ExpiresBeforeWait e t1) C blockingTimerChanRef of
           Panics \<Rightarrow> Panics
         | BlocksForever \<Rightarrow> BlocksForever
         | Returns (err, t2, C') \<Rightarrow>
             let (s, t3) = SetBlockingTimer (expiry e = ExpiresAfterWake) zeroSetting t2
             in Returns (err,
                         if \<not> Enabled s then t3\<lparr>blockingTimerChan := tryRecv (blockingTimerChan t3)\<rparr> else t3,
                         C'))"

definition BlockWithDeadline ::
  "('as, 'gs, 'p) deps \<Rightarrow> env \<Rightarrow> ('as, 'gs, 'p) Task \<Rightarrow> chan \<Rightarrow> bool \<Rightarrow> Time
     \<Rightarrow> (error \<times> ('as, 'gs, 'p) Task \<times> chan) outcome" where
  "BlockWithDeadline d e t C haveDeadline deadline =
     (if \<not> haveDeadline then block d e t C nilChan
      else blockWithDeadlineFromSampledClock d e t C deadline)"

text \<open>The outcome of the type assertion \<open>clock.(ktime.SampledClock)\<close>.\<close>

datatype clock = SampledClock | GenericClock

text \<open>
  The body of \<open>BlockWithDeadlineFrom\<close> on a clock that is not sampled, up to the
  deferred \<open>timer.Destroy()\<close>.
\<close>

definition blockWithGenericTimer ::
  "('as, 'gs, 'p) deps \<Rightarrow> env \<Rightarrow> ('as, 'gs, 'p) Task \<Rightarrow> chan \<Rightarrow> Time
     \<Rightarrow> (error \<times> ('as, 'gs, 'p) Task \<times> chan) outcome" where
  "blockWithGenericTimer d e t C deadline =
     (let (s0, t1) = SetGenericTimer False \<lparr>Enabled = True, Next = deadline\<rparr> (NewTimer t)
      in case block d e (expireAt ExpiresBeforeWait e t1) C blockingTimerChanRef of
           Panics \<Rightarrow> Panics
         | BlocksForever \<Rightarrow> BlocksForever
         | Returns (err, t2, C') \<Rightarrow>
             let (s, t3) = SetGenericTimer (expiry e = ExpiresAfterWake) zeroSetting t2
             in Returns (err,
                         if \<not> Enabled s then t3\<lparr>blockingTimerChan := tryRecv (blockingTimerChan t3)\<rparr> else t3,
                         C'))"

definition BlockWithDeadlineFrom ::
  "('as, 'gs, 'p) deps \<Rightarrow> env \<Rightarrow> ('as, 'gs, 'p) Task \<Rightarrow> chan \<Rightarrow> clock \<Rightarrow> bool \<Rightarrow> Time
     \<Rightarrow> (error \<times> ('as, 'gs, 'p) Task \<times> chan) outcome" where
  "BlockWithDeadlineFrom d e t C clk haveDeadline deadline =
     (if \<not> haveDeadline then block d e t C nilChan
      else case clk of
        SampledClock \<Rightarrow> blockWithDeadlineFromSampledClock d e t C deadline
      | GenericClock \<Rightarrow>
          (case blockWithGenericTimer d e t C deadline of
             Panics \<Rightarrow> Panics
           | BlocksForever \<Rightarrow> BlocksForever
           | Returns (err, t1, C') \<Rightarrow> Returns (err, Destroy t1, C')))"

subsection \<open>Blocking with a timeout\<close>

definition BlockWithTimeout ::
  "('as, 'gs, 'p) deps \<Rightarrow> env \<Rightarrow> ('as, 'gs, 'p) Task \<Rightarrow> chan \<Rightarrow> bool \<Rightarrow> Duration
     \<Rightarrow> (Duration \<times> error \<times> ('as, 'gs, 'p) Task \<times> chan) outcome" where
  "BlockWithTimeout d e t C haveTimeout timeout =
     (if \<not> haveTimeout then
        (case block d e t C nilChan of
           Panics \<Rightarrow> Panics
         | BlocksForever \<Rightarrow> BlocksForever
         | Returns (err, t1, C') \<Rightarrow> Returns (timeout, err, t1, C'))
      else
        let start = nowBefore e;
            deadline = TimeAdd d start timeout
        in case blockWithDeadlineFromSampledClock d e t C deadline of
             Panics \<Rightarrow> Panics
           | BlocksForever \<Rightarrow> BlocksForever
           | Returns (err, t1, C') \<Rightarrow>
               if err = Some ETIMEDOUT then Returns (0, err, t1, C')
               else
                 let end = nowAfter e;
                     remainingTimeout = timeout - TimeSub d end start
                 in Returns (if remainingTimeout <s 0 then 0 else remainingTimeout, err, t1, C'))"

subsection \<open>An instance of the parameters\<close>

text \<open>
  Modelled from the spec: one instance of the hooks, used to run the model on concrete
  inputs. The address space counts its activations, the accounting keeps the stack of
  the states entered (nested entries count) and the number of watchdog touches, the
  platform context counts the calls it receives, and times are subtracted as \<open>int64\<close>.
\<close>

definition exampleDeps :: "(int, TaskGoroutineState list \<times> nat, nat) deps" where
  "exampleDeps =
     \<lparr>Activate = (\<lambda>n. n + 1),
      Deactivate = (\<lambda>n. n - 1),
      accountTaskGoroutineEnter = (\<lambda>s g. (s # fst g, snd g)),
      accountTaskGoroutineLeave = (\<lambda>s g. (tl (fst g), snd g)),
      touchGostateTime = (\<lambda>g. (fst g, snd g + 1)),
      PrepareSleep = Suc,
      PlatformInterrupt = Suc,
      TimeAdd = (\<lambda>t dur. t + dur),
      TimeSub = (\<lambda>t u. t - u),
      RaceEnabled = True\<rparr>"

definition exampleTask :: "(int, TaskGoroutineState list \<times> nat, nat) Task" where
  "exampleTask =
     \<lparr>addressSpace = 1,
      gosched = ([], 0),
      platformCtx = 0,
      interruptChan = \<lparr>clen = 0, ccap = 1\<rparr>,
      blockingTimerChan = \<lparr>clen = 0, ccap = 1\<rparr>,
      blockingTimer = zeroSetting,
      genericTimer = None,
      yields = 0\<rparr>"

definition exampleEnv :: env where
  "exampleEnv =
     \<lparr>onTaskGoroutine = True, posted = 0, interruptedByOther = False, expiry = NoExpiry,
      choice = [], nowBefore = 1000, nowAfter = 1005\<rparr>"

subsection \<open>Observations on a call\<close>

text \<open>
  What the sleep path of \<open>block\<close> changes and the fast path must not: the activation
  of the address space, the goroutine-state accounting, the platform context, the
  interrupt slot and the scheduler yields.
\<close>

definition sleepStateUntouched :: "('as, 'gs, 'p) Task \<Rightarrow> ('as, 'gs, 'p) Task \<Rightarrow> bool" where
  "sleepStateUntouched t t' =
     (addressSpace t' = addressSpace t \<and> gosched t' = gosched t \<and> platformCtx t' = platformCtx t
      \<and> interruptChan t' = interruptChan t \<and> yields t' = yields t)"

text \<open>The call returned \<open>nil\<close>, took one value from \<open>C\<close> and left the sleep state alone.\<close>

definition fastPathReturn ::
  "('as, 'gs, 'p) Task \<Rightarrow> chan \<Rightarrow> (error \<times> ('as, 'gs, 'p) Task \<times> chan) outcome \<Rightarrow> bool" where
  "fastPathReturn t C r =
     (case r of
        Returns (err, t', C') \<Rightarrow> err = None \<and> C' = recv C \<and> sleepStateUntouched t t'
      | Panics \<Rightarrow> False
      | BlocksForever \<Rightarrow> False)"

text \<open>The result of \<open>BlockWithTimeout\<close> without the remaining duration.\<close>

definition dropRemaining ::
  "(Duration \<times> error \<times> ('as, 'gs, 'p) Task \<times> chan) outcome \<Rightarrow> (error \<times> ('as, 'gs, 'p) Task \<times> chan) outcome" where
  "dropRemaining r =
     (case r of Returns (rem, x) \<Rightarrow> Returns x | Panics \<Rightarrow> Panics | BlocksForever \<Rightarrow> BlocksForever)"

text \<open>The event channel once the other goroutines have sent on it.\<close>

definition afterPosts :: "env \<Rightarrow> chan \<Rightarrow> chan" where
  "afterPosts e C = C\<lparr>clen := clen C + posted e\<rparr>"

text \<open>The arm that the \<open>select\<close> of \<open>block\<close> takes, when the fast path is missed.\<close>

definition wokenBy ::
  "('as, 'gs, 'p) deps \<Rightarrow> env \<Rightarrow> ('as, 'gs, 'p) Task \<Rightarrow> chan \<Rightarrow> chanref \<Rightarrow> wake option" where
  "wokenBy d e t C r =
     (case asleep d e t r of None \<Rightarrow> None | Some t2 \<Rightarrow> fst (waitSelect d e t2 C r))"

text \<open>The error and the event channel that a call returns, if it returns.\<close>

definition returned :: "(error \<times> ('as, 'gs, 'p) Task \<times> chan) outcome \<Rightarrow> (error \<times> chan) option" where
  "returned r = (case r of Returns (err, t', C') \<Rightarrow> Some (err, C') | Panics \<Rightarrow> None | BlocksForever \<Rightarrow> None)"

text \<open>
  The timer arm cannot become ready before the \<open>select\<close> chooses: the timer channel is
  empty at entry and the timer does not expire before or during the wait.
\<close>

definition quietTimer :: "env \<Rightarrow> ('as, 'gs, 'p) Task \<Rightarrow> bool" where
  "quietTimer e t =
     (clen (blockingTimerChan t) = 0 \<and> expiry e \<noteq> ExpiresBeforeWait \<and> expiry e \<noteq> ExpiresDuringWait)"

text \<open>
  The timer channel is a single slot that is empty while a timer feeding it is still armed.
\<close>

definition slotClean :: "('as, 'gs, 'p) Task \<Rightarrow> bool" where
  "slotClean t =
     (ccap (blockingTimerChan t) \<le> 1 \<and> clen (blockingTimerChan t) \<le> 1
      \<and> (Enabled (blockingTimer t) \<longrightarrow> clen (blockingTimerChan t) = 0)
      \<and> (\<forall>s. genericTimer t = Some s \<and> Enabled s \<longrightarrow> clen (blockingTimerChan t) = 0))"

section \<open>Threads and PID namespaces (pkg/sentry/kernel/threads.go)\<close>

subsection \<open>Data\<close>

text \<open>
  \<open>ThreadID\<close> is an \<open>int32\<close>, and so are session and process group identifiers.
  Tasks, thread groups, namespaces, task sets, user namespaces and inodes are
  referred to by pointers: an address, or \<open>None\<close> for \<open>nil\<close>.
\<close>

type_synonym ThreadID = "32 word"
type_synonym SessionID = "32 word"
type_synonym ProcessGroupID = "32 word"
type_synonym addr = nat
type_synonym ptr = "addr option"

definition TasksLimit :: nat where
  "TasksLimit = 2 ^ 16"

definition initTID :: ThreadID where
  "initTID = 1"

text \<open>
  Modelled from the spec: \<open>taskSetRWMutex\<close>, the reader/writer lock of a task set,
  which is defined elsewhere: the number of readers inside and whether a
  writer is.
\<close>

record taskSetRWMutex =
  readers :: nat
  writer :: bool

record TaskSet =
  mu :: taskSetRWMutex
  Root :: ptr
  stopCount :: "32 word"
  liveTasks :: "32 word"
  noNewTasksIfZeroLive :: bool

text \<open>
  The fields \<open>id\<close> and \<open>last\<close> are written \<open>id'\<close> and \<open>last'\<close>. A Go map is a
  partial function; it may hold \<open>nil\<close> as a key or as a value. The build-specific
  \<open>extra\<close> data is left out.
\<close>

record PIDNamespace =
  owner :: ptr
  parent :: ptr
  userns :: ptr
  id' :: "64 word"
  last' :: ThreadID
  tasks :: "ThreadID \<rightharpoonup> ptr"
  tids :: "ptr \<rightharpoonup> ThreadID"
  tgids :: "ptr \<rightharpoonup> ThreadID"
  sessions :: "SessionID \<rightharpoonup> ptr"
  sids :: "ptr \<rightharpoonup> SessionID"
  processGroups :: "ProcessGroupID \<rightharpoonup> ptr"
  pgids :: "ptr \<rightharpoonup> ProcessGroupID"
  exiting :: bool
  inode :: ptr

text \<open>
  Of \<open>threadGroupNode\<close> and \<open>taskNode\<close>, the pointers that the operations below
  follow. The \<open>parent\<close> of a task is written \<open>parentTask\<close>.
\<close>

record threadGroupNode =
  pidns :: ptr
  leader :: ptr
  execing :: ptr

record taskNode =
  tg :: ptr
  parentTask :: ptr
  childPIDNamespace :: ptr

text \<open>
  Modelled from the spec: the \<open>nsfs\<close> inode of a namespace, which is defined in
  package \<open>nsfs\<close>: the namespace it is bound to and the type tag of that namespace.
\<close>

record Inode =
  namespace :: ptr
  typeTag :: string

text \<open>
  The objects of the kernel by address, and the global counter \<open>lastPIDNSID\<close>, an
  atomic \<open>uint64\<close>.
\<close>

record heap =
  lastPIDNSID :: "64 word"
  taskSets :: "addr \<rightharpoonup> TaskSet"
  pidNamespaces :: "addr \<rightharpoonup> PIDNamespace"
  threadGroups :: "addr \<rightharpoonup> threadGroupNode"
  taskNodes :: "addr \<rightharpoonup> taskNode"
  inodes :: "addr \<rightharpoonup> Inode"

text \<open>
  Following a pointer: \<open>None\<close> when it is \<open>nil\<close> or no object lives there; the
  operations panic on it. A Go map read gives the zero value for a missing key.
\<close>

definition deref :: "(addr \<rightharpoonup> 'a) \<Rightarrow> ptr \<Rightarrow> 'a option" where
  "deref m p = (case p of None \<Rightarrow> None | Some a \<Rightarrow> m a)"

definition lookupPtr :: "('k \<rightharpoonup> ptr) \<Rightarrow> 'k \<Rightarrow> ptr" where
  "lookupPtr m k = (case m k of None \<Rightarrow> None | Some p \<Rightarrow> p)"

definition lookupID :: "('k \<rightharpoonup> 32 word) \<Rightarrow> 'k \<Rightarrow> 32 word" where
  "lookupID m k = (case m k of None \<Rightarrow> 0 | Some i \<Rightarrow> i)"

subsection \<open>The reader lock\<close>

text \<open>
  Modelled from the spec: \<open>RLock\<close> and \<open>RUnlock\<close> of the task set's lock, which are
  defined elsewhere. A reader enters unless a writer is inside, in which
  case it waits, for ever if no one else runs. \<open>ns.owner.mu\<close> on a \<open>nil\<close> owner
  panics.
\<close>

definition RLock :: "heap \<Rightarrow> ptr \<Rightarrow> heap outcome" where
  "RLock h p =
     (case p of
        None \<Rightarrow> Panics
      | Some a \<Rightarrow>
          (case taskSets h a of
             None \<Rightarrow> Panics
           | Some ts \<Rightarrow>
               if writer (mu ts) then BlocksForever
               else Returns (h\<lparr>taskSets := (taskSets h)(a \<mapsto> ts\<lparr>mu := (mu ts)\<lparr>readers := readers (mu ts) + 1\<rparr>\<rparr>)\<rparr>)))"

definition RUnlock :: "heap \<Rightarrow> ptr \<Rightarrow> heap outcome" where
  "RUnlock h p =
     (case p of
        None \<Rightarrow> Panics
      | Some a \<Rightarrow>
          (case taskSets h a of
             None \<Rightarrow> Panics
           | Some ts \<Rightarrow>
               if readers (mu ts) = 0 then Panics
               else Returns (h\<lparr>taskSets := (taskSets h)(a \<mapsto> ts\<lparr>mu := (mu ts)\<lparr>readers := readers (mu ts) - 1\<rparr>\<rparr>)\<rparr>)))"

text \<open>
  A deferred or trailing \<open>RUnlock\<close> followed by the return of a value.
\<close>

definition unlockReturn :: "heap \<Rightarrow> ptr \<Rightarrow> 'a \<Rightarrow> ('a \<times> heap) outcome" where
  "unlockReturn h p v =
     (case RUnlock h p of
        Returns h1 \<Rightarrow> Returns (v, h1)
      | Panics \<Rightarrow> Panics
      | BlocksForever \<Rightarrow> BlocksForever)"

subsection \<open>Creating namespaces\<close>

text \<open>
  \<open>lastPIDNSID.Add(1)\<close> increments the counter and gives the new value. \<open>a\<close> is the
  address at which the Go allocator places the new namespace.
\<close>

definition newPIDNamespace :: "heap \<Rightarrow> ptr \<Rightarrow> ptr \<Rightarrow> ptr \<Rightarrow> addr \<Rightarrow> ptr \<times> heap" where
  "newPIDNamespace h ts par uns a =
     (let n = lastPIDNSID h + 1;
          ns = \<lparr>owner = ts, parent = par, userns = uns, id' = n, last' = 0,
                tasks = Map.empty, tids = Map.empty, tgids = Map.empty,
                sessions = Map.empty, sids = Map.empty,
                processGroups = Map.empty, pgids = Map.empty,
                exiting = False, inode = None\<rparr>
      in (Some a, h\<lparr>lastPIDNSID := n, pidNamespaces := (pidNamespaces h)(a \<mapsto> ns)\<rparr>))"

definition Type :: "PIDNamespace \<Rightarrow> string" where
  "Type ns = ''pid''"

text \<open>
  Modelled from the spec: \<open>nsfs.NewInode\<close>, which is defined elsewhere,
  makes an inode bound to the namespace and tagged with its \<open>Type()\<close>; \<open>i\<close> is the
  address of the new inode. \<open>InitInode\<close> stores it in the namespace.
\<close>

definition InitInode :: "heap \<Rightarrow> ptr \<Rightarrow> addr \<Rightarrow> heap outcome" where
  "InitInode h nsp i =
     (case nsp of
        None \<Rightarrow> Panics
      | Some a \<Rightarrow>
          (case pidNamespaces h a of
             None \<Rightarrow> Panics
           | Some ns \<Rightarrow>
               Returns (h\<lparr>inodes := (inodes h)(i \<mapsto> \<lparr>namespace = nsp, typeTag = Type ns\<rparr>),
                          pidNamespaces := (pidNamespaces h)(a \<mapsto> ns\<lparr>inode := Some i\<rparr>)\<rparr>)))"

definition NewRootPIDNamespace :: "heap \<Rightarrow> ptr \<Rightarrow> addr \<Rightarrow> ptr \<times> heap" where
  "NewRootPIDNamespace h uns a = newPIDNamespace h None None uns a"

text \<open>
  \<open>newTaskSet\<close> makes the task set of a root namespace and sets the owner of that
  namespace; \<open>a\<close> is the address of the new task set.
\<close>

definition newTaskSet :: "heap \<Rightarrow> ptr \<Rightarrow> addr \<Rightarrow> (ptr \<times> heap) outcome" where
  "newTaskSet h p a =
     (case p of
        None \<Rightarrow> Panics
      | Some n \<Rightarrow>
          (case pidNamespaces h n of
             None \<Rightarrow> Panics
           | Some ns \<Rightarrow>
               Returns (Some a,
                 h\<lparr>taskSets := (taskSets h)(a \<mapsto>
                       \<lparr>mu = \<lparr>readers = 0, writer = False\<rparr>, Root = p, stopCount = 0, liveTasks = 0,
                        noNewTasksIfZeroLive = False\<rparr>),
                   pidNamespaces := (pidNamespaces h)(n \<mapsto> ns\<lparr>owner := Some a\<rparr>)\<rparr>)))"

definition NewChild :: "heap \<Rightarrow> ptr \<Rightarrow> ptr \<Rightarrow> addr \<Rightarrow> addr \<Rightarrow> (ptr \<times> heap) outcome" where
  "NewChild h nsp uns a i =
     (case deref (pidNamespaces h) nsp of
        None \<Rightarrow> Panics
      | Some ns \<Rightarrow>
          (let (p, h1) = newPIDNamespace h (owner ns) nsp uns a
           in case InitInode h1 p i of
                Returns h2 \<Rightarrow> Returns (p, h2)
              | Panics \<Rightarrow> Panics
              | BlocksForever \<Rightarrow> BlocksForever))"

subsection \<open>Lookups\<close>

definition TaskWithID :: "heap \<Rightarrow> ptr \<Rightarrow> ThreadID \<Rightarrow> (ptr \<times> heap) outcome" where
  "TaskWithID h nsp tid =
     (case deref (pidNamespaces h) nsp of
        None \<Rightarrow> Panics
      | Some ns \<Rightarrow>
          (case RLock h (owner ns) of
             Returns h1 \<Rightarrow> unlockReturn h1 (owner ns) (lookupPtr (tasks ns) tid)
           | Panics \<Rightarrow> Panics
           | BlocksForever \<Rightarrow> BlocksForever))"

definition ID :: "heap \<Rightarrow> ptr \<Rightarrow> 64 word outcome" where
  "ID h nsp = (case deref (pidNamespaces h) nsp of None \<Rightarrow> Panics | Some ns \<Rightarrow> Returns (id' ns))"

definition ThreadGroupWithID :: "heap \<Rightarrow> ptr \<Rightarrow> ThreadID \<Rightarrow> (ptr \<times> heap) outcome" where
  "ThreadGroupWithID h nsp tid =
     (case deref (pidNamespaces h) nsp of
        None \<Rightarrow> Panics
      | Some ns \<Rightarrow>
          (case RLock h (owner ns) of
             Returns h1 \<Rightarrow>
               (let t = lookupPtr (tasks ns) tid
                in if t = None then unlockReturn h1 (owner ns) None
                   else case deref (taskNodes h1) t of
                     None \<Rightarrow> Panics
                   | Some tn \<Rightarrow>
                       (case deref (threadGroups h1) (tg tn) of
                          None \<Rightarrow> Panics
                        | Some g \<Rightarrow>
                            if t \<noteq> leader g then unlockReturn h1 (owner ns) None
                            else unlockReturn h1 (owner ns) (tg tn)))
           | Panics \<Rightarrow> Panics
           | BlocksForever \<Rightarrow> BlocksForever))"

definition IDOfTask :: "heap \<Rightarrow> ptr \<Rightarrow> ptr \<Rightarrow> (ThreadID \<times> heap) outcome" where
  "IDOfTask h nsp t =
     (case deref (pidNamespaces h) nsp of
        None \<Rightarrow> Panics
      | Some ns \<Rightarrow>
          (case RLock h (owner ns) of
             Returns h1 \<Rightarrow> unlockReturn h1 (owner ns) (lookupID (tids ns) t)
           | Panics \<Rightarrow> Panics
           | BlocksForever \<Rightarrow> BlocksForever))"

definition IDOfThreadGroup :: "heap \<Rightarrow> ptr \<Rightarrow> ptr \<Rightarrow> (ThreadID \<times> heap) outcome" where
  "IDOfThreadGroup h nsp g =
     (case deref (pidNamespaces h) nsp of
        None \<Rightarrow> Panics
      | Some ns \<Rightarrow>
          (case RLock h (owner ns) of
             Returns h1 \<Rightarrow> unlockReturn h1 (owner ns) (lookupID (tgids ns) g)
           | Panics \<Rightarrow> Panics
           | BlocksForever \<Rightarrow> BlocksForever))"

subsection \<open>Admission and reaping\<close>

text \<open>
  Modelled from the spec: the assignment of a thread ID at admission, which is defined
  elsewhere. It allocates a fresh value above \<open>last\<close> that no task
  of the namespace holds, at most \<open>2^30 - 1\<close>, and is refused on exhaustion.
\<close>

definition maxTID :: nat where
  "maxTID = 2 ^ 30 - 1"

function nextFree :: "(ThreadID \<Rightarrow> bool) \<Rightarrow> nat \<Rightarrow> nat option" where
  "nextFree used n =
     (if maxTID < n then None
      else if used (of_nat n) then nextFree used (Suc n)
      else Some n)"
  by pat_completeness auto
termination
  by (relation "measure (\<lambda>(used, n). Suc maxTID - n)") auto

definition allocateTID :: "PIDNamespace \<Rightarrow> ThreadID option" where
  "allocateTID ns =
     map_option of_nat (nextFree (\<lambda>tid. tasks ns tid \<noteq> None) (Suc (unat (last' ns))))"
declare nextFree.simps [simp del]

text \<open>
  Modelled from the spec: admission and reaping in one namespace, which are defined
  elsewhere. A task that the namespace does not hold yet is admitted
  unless the namespace holds \<open>TasksLimit\<close> tasks or has no thread ID left; it gets
  the allocated thread ID in both directions of the bimap, and its thread group gets
  the same ID if the task leads it. Reaping removes the task from both directions, and
  its thread group if the task leads it. A refused admission returns no ID.
\<close>

definition isLeader :: "heap \<Rightarrow> addr \<Rightarrow> ptr" where
  "isLeader h t =
     (case taskNodes h t of
        None \<Rightarrow> None
      | Some tn \<Rightarrow>
          (case deref (threadGroups h) (tg tn) of
             None \<Rightarrow> None
           | Some g \<Rightarrow> if leader g = Some t then tg tn else None))"

definition assignTID :: "heap \<Rightarrow> addr \<Rightarrow> addr \<Rightarrow> (ThreadID option \<times> heap) outcome" where
  "assignTID h a t =
     (case pidNamespaces h a of
        None \<Rightarrow> Panics
      | Some ns \<Rightarrow>
          if tids ns (Some t) \<noteq> None \<or> TasksLimit \<le> card (dom (tids ns)) then Returns (None, h)
          else case allocateTID ns of
            None \<Rightarrow> Returns (None, h)
          | Some tid \<Rightarrow>
              Returns (Some tid,
                h\<lparr>pidNamespaces := (pidNamespaces h)(a \<mapsto>
                     ns\<lparr>last' := tid,
                        tasks := (tasks ns)(tid \<mapsto> Some t),
                        tids := (tids ns)(Some t \<mapsto> tid),
                        tgids := (case isLeader h t of
                                    None \<Rightarrow> tgids ns
                                  | Some g \<Rightarrow> (tgids ns)(Some g \<mapsto> tid))\<rparr>)\<rparr>))"

definition deleteTask :: "heap \<Rightarrow> addr \<Rightarrow> addr \<Rightarrow> heap outcome" where
  "deleteTask h a t =
     (case pidNamespaces h a of
        None \<Rightarrow> Panics
      | Some ns \<Rightarrow>
          Returns (h\<lparr>pidNamespaces := (pidNamespaces h)(a \<mapsto>
                     ns\<lparr>tasks := (tasks ns)(lookupID (tids ns) (Some t) := None),
                        tids := (tids ns)(Some t := None),
                        tgids := (case isLeader h t of
                                    None \<Rightarrow> tgids ns
                                  | Some g \<Rightarrow> (tgids ns)(Some g := None))\<rparr>)\<rparr>))"

subsection \<open>The invariant of a namespace\<close>

text \<open>
  \<open>tasks\<close> and \<open>tids\<close> are inverse to each other and no task has the thread ID 0;
  every thread group with an entry in \<open>tgids\<close> has there the thread ID of its leader;
  \<open>nil\<close> has no thread ID. On the side of the heap, the leader of a thread group is
  a task of that group.
\<close>

definition bimap :: "PIDNamespace \<Rightarrow> bool" where
  "bimap ns =
     ((\<forall>tid t. (tasks ns tid = Some t) = (tids ns t = Some tid)) \<and> (\<forall>t. tids ns t \<noteq> Some 0))"

definition leaderOf :: "heap \<Rightarrow> ptr \<Rightarrow> ptr" where
  "leaderOf h g = (case deref (threadGroups h) g of None \<Rightarrow> None | Some n \<Rightarrow> leader n)"

definition tgidsAgree :: "heap \<Rightarrow> PIDNamespace \<Rightarrow> bool" where
  "tgidsAgree h ns = (\<forall>g tid. tgids ns g = Some tid \<longrightarrow> tids ns (leaderOf h g) = Some tid)"

definition pidnsInv :: "heap \<Rightarrow> PIDNamespace \<Rightarrow> bool" where
  "pidnsInv h ns = (bimap ns \<and> tgidsAgree h ns \<and> tids ns None = None)"

definition wfGroups :: "heap \<Rightarrow> bool" where
  "wfGroups h =
     (\<forall>g n t. threadGroups h g = Some n \<and> leader n = Some t \<longrightarrow>
        (\<exists>tn. taskNodes h t = Some tn \<and> tg tn = Some g))"

definition heapInv :: "heap \<Rightarrow> bool" where
  "heapInv h = (wfGroups h \<and> (\<forall>a ns. pidNamespaces h a = Some ns \<longrightarrow> pidnsInv h ns))"

text \<open>
  Every namespace has a non-zero \<open>id\<close> that the global counter has reached.
\<close>

definition idsIssued :: "heap \<Rightarrow> bool" where
  "idsIssued h = (\<forall>a ns. pidNamespaces h a = Some ns \<longrightarrow> id' ns \<noteq> 0 \<and> id' ns \<le> lastPIDNSID h)"

text \<open>
  The operations on the namespaces of a heap, and runs of them.
\<close>

datatype pidnsOp =
  DoNewRootPIDNamespace ptr addr
  | DoNewTaskSet ptr addr
  | DoNewChild ptr ptr addr addr
  | DoInitInode ptr addr
  | DoTaskWithID ptr ThreadID
  | DoThreadGroupWithID ptr ThreadID
  | DoIDOfTask ptr ptr
  | DoIDOfThreadGroup ptr ptr
  | DoAssignTID addr addr
  | DoDeleteTask addr addr

definition heapOf :: "('a \<times> heap) outcome \<Rightarrow> heap outcome" where
  "heapOf r = (case r of Returns (x, h) \<Rightarrow> Returns h | Panics \<Rightarrow> Panics | BlocksForever \<Rightarrow> BlocksForever)"

fun perform :: "heap \<Rightarrow> pidnsOp \<Rightarrow> heap outcome" where
  "perform h (DoNewRootPIDNamespace uns a) = Returns (snd (NewRootPIDNamespace h uns a))"
| "perform h (DoNewTaskSet p a) = heapOf (newTaskSet h p a)"
| "perform h (DoNewChild nsp uns a i) = heapOf (NewChild h nsp uns a i)"
| "perform h (DoInitInode nsp i) = InitInode h nsp i"
| "perform h (DoTaskWithID nsp tid) = heapOf (TaskWithID h nsp tid)"
| "perform h (DoThreadGroupWithID nsp tid) = heapOf (ThreadGroupWithID h nsp tid)"
| "perform h (DoIDOfTask nsp t) = heapOf (IDOfTask h nsp t)"
| "perform h (DoIDOfThreadGroup nsp g) = heapOf (IDOfThreadGroup h nsp g)"
| "perform h (DoAssignTID a t) = heapOf (assignTID h a t)"
| "perform h (DoDeleteTask a t) = deleteTask h a t"

fun run :: "heap \<Rightarrow> pidnsOp list \<Rightarrow> heap outcome" where
  "run h [] = Returns h"
| "run h (x # xs) =
     (case perform h x of
        Returns h1 \<Rightarrow> run h1 xs
      | Panics \<Rightarrow> Panics
      | BlocksForever \<Rightarrow> BlocksForever)"

subsection \<open>A heap to run the operations on\<close>

definition emptyHeap :: heap where
  "emptyHeap =
     \<lparr>lastPIDNSID = 0, taskSets = Map.empty, pidNamespaces = Map.empty, threadGroups = Map.empty,
      taskNodes = Map.empty, inodes = Map.empty\<rparr>"

text \<open>
  Two tasks 10 and 11 in the thread group 20, which 10 leads; the root namespace at
  address 1, owned by the task set at address 2, holds task 10 under the thread ID 1.
\<close>

definition startHeap :: heap where
  "startHeap =
     \<lparr>lastPIDNSID = 0, taskSets = Map.empty, pidNamespaces = Map.empty,
      threadGroups = [20 \<mapsto> \<lparr>pidns = Some 1, leader = Some 10, execing = None\<rparr>],
      taskNodes = [10 \<mapsto> \<lparr>tg = Some 20, parentTask = None, childPIDNamespace = None\<rparr>,
                   11 \<mapsto> \<lparr>tg = Some 20, parentTask = None, childPIDNamespace = None\<rparr>],
      inodes = Map.empty\<rparr>"

definition exampleNS :: PIDNamespace where
  "exampleNS =
     \<lparr>owner = Some 2, parent = None, userns = None, id' = 1, last' = 1,
      tasks = [1 \<mapsto> Some 10], tids = [Some 10 \<mapsto> 1], tgids = [Some 20 \<mapsto> 1],
      sessions = Map.empty, sids = Map.empty, processGroups = Map.empty, pgids = Map.empty,
      exiting = False, inode = None\<rparr>"

definition exampleHeap :: heap where
  "exampleHeap =
     startHeap\<lparr>lastPIDNSID := 1,
       taskSets := [2 \<mapsto> \<lparr>mu = \<lparr>readers = 0, writer = False\<rparr>, Root = Some 1, stopCount = 0,
                          liveTasks = 0, noNewTasksIfZeroLive = False\<rparr>],
       pidNamespaces := [1 \<mapsto> exampleNS]\<rparr>"

section \<open>Properties of the block core\<close>

text \<open>
  C10. \<open>Interrupted()\<close> touches the watchdog timestamp exactly on the path where it
  returns false: with an interrupt pending it returns true and leaves the task as it
  is, otherwise it returns false and the only change is \<open>touchGostateTime\<close>. In both
  cases the interrupt slot keeps its content.
\<close>

theorem Interrupted_touches_only_when_false:
  "Interrupted d t =
     (if clen (interruptChan t) \<noteq> 0 then (True, t)
      else (False, t\<lparr>gosched := touchGostateTime d (gosched t)\<rparr>))
   \<and> interruptChan (snd (Interrupted d t)) = interruptChan t"
  by (simp add: Interrupted_def interrupted_def)

theorem Interrupted_touches_only_when_false_witness:
  "Interrupted exampleDeps (exampleTask\<lparr>interruptChan := \<lparr>clen = 1, ccap = 1\<rparr>\<rparr>)
     = (True, exampleTask\<lparr>interruptChan := \<lparr>clen = 1, ccap = 1\<rparr>\<rparr>)
   \<and> Interrupted exampleDeps exampleTask = (False, exampleTask\<lparr>gosched := ([], 1)\<rparr>)"
  using Interrupted_touches_only_when_false [of exampleDeps "exampleTask\<lparr>interruptChan := \<lparr>clen = 1, ccap = 1\<rparr>\<rparr>"]
    Interrupted_touches_only_when_false [of exampleDeps exampleTask]
  by (simp add: exampleDeps_def exampleTask_def)

lemma expire_sleepState: "sleepStateUntouched t (expire t)"
  by (simp add: expire_def sleepStateUntouched_def Let_def split: option.split)

lemma expire_fields [simp]:
  "addressSpace (expire t) = addressSpace t"
  "gosched (expire t) = gosched t"
  "platformCtx (expire t) = platformCtx t"
  "interruptChan (expire t) = interruptChan t"
  "yields (expire t) = yields t"
  using expire_sleepState [of t] by (simp_all add: sleepStateUntouched_def)

lemma block_fast:
  assumes "ready C" and "RaceEnabled d \<longrightarrow> onTaskGoroutine e"
  shows "block d e t C timerChan = Returns (None, t, recv C)"
  using assms by (simp add: block_def assertTaskGoroutine_def)

lemma sampled_fast:
  assumes "ready C" and "RaceEnabled d \<longrightarrow> onTaskGoroutine e"
  shows "fastPathReturn t C (blockWithDeadlineFromSampledClock d e t C deadline)"
  by (auto simp add: blockWithDeadlineFromSampledClock_def block_fast [OF assms] fastPathReturn_def
      SetClock_def SetBlockingTimer_def expireAt_def Let_def sleepStateUntouched_def split: prod.split)

lemma generic_fast:
  assumes "ready C" and "RaceEnabled d \<longrightarrow> onTaskGoroutine e"
  shows "fastPathReturn t C (blockWithGenericTimer d e t C deadline)"
  by (auto simp add: blockWithGenericTimer_def block_fast [OF assms] fastPathReturn_def
      NewTimer_def SetGenericTimer_def expireAt_def Let_def sleepStateUntouched_def split: prod.split)

text \<open>
  C4. When the event channel \<open>C\<close> holds a value at entry, every call of the block
  family returns \<open>nil\<close> on the fast path (the caller being on the task goroutine where
  the race build asserts it): \<open>block\<close> and \<open>Block\<close> return the task exactly as it
  was, and the variants with a deadline or a timeout, which arm and disarm the blocking
  timer around \<open>block\<close>, leave the activation of the address space, the sleep
  accounting, the platform context and the interrupt slot untouched; a pending
  interrupt stays pending. One value is taken from \<open>C\<close>.
\<close>

theorem fast_path_before_any_state_change:
  assumes "ready C" and "RaceEnabled d \<longrightarrow> onTaskGoroutine e"
  shows "block d e t C timerChan = Returns (None, t, recv C)
    \<and> Block d e t C = Returns (None, t, recv C)
    \<and> fastPathReturn t C (BlockWithDeadline d e t C haveDeadline deadline)
    \<and> fastPathReturn t C (BlockWithDeadlineFrom d e t C clk haveDeadline deadline)
    \<and> fastPathReturn t C (dropRemaining (BlockWithTimeout d e t C haveTimeout timeout))"
proof -
  note bf = block_fast [OF assms]
  have plain: "fastPathReturn t C (Returns (None, t, recv C))"
    by (simp add: fastPathReturn_def sleepStateUntouched_def)
  have dl: "fastPathReturn t C (BlockWithDeadline d e t C haveDeadline deadline)"
    using plain sampled_fast [OF assms] by (simp add: BlockWithDeadline_def bf)
  have gen: "fastPathReturn t C (BlockWithDeadlineFrom d e t C clk haveDeadline deadline)"
    using plain sampled_fast [OF assms, of t deadline] generic_fast [OF assms, of t deadline]
    by (cases clk)
      (auto simp add: BlockWithDeadlineFrom_def bf fastPathReturn_def Destroy_def
        sleepStateUntouched_def split: outcome.splits)
  have tmo: "fastPathReturn t C (dropRemaining (BlockWithTimeout d e t C haveTimeout timeout))"
    using plain sampled_fast [OF assms, of t "TimeAdd d (nowBefore e) timeout"]
    by (auto simp add: BlockWithTimeout_def bf dropRemaining_def fastPathReturn_def Let_def
        split: outcome.splits)
  show ?thesis using bf dl gen tmo by (simp add: Block_def)
qed

text \<open>The equations that run the model on a concrete input.\<close>

lemmas model_defs =
  ready_def recv_def trySend_def tryRecv_def zeroSetting_def lenRef_def
  interruptSelf_def interrupt_def Interrupt_def interrupted_def unsetInterrupted_def Interrupted_def
  assertTaskGoroutine_def prepareSleep_def completeSleep_def
  UninterruptibleSleepStart_def UninterruptibleSleepFinish_def
  expire_def expireAt_def arrive_def armReady_def select3_def waitSelect_def asleep_def
  block_def Block_def SetClock_def SetBlockingTimer_def NewTimer_def Destroy_def SetGenericTimer_def
  blockWithDeadlineFromSampledClock_def BlockWithDeadline_def blockWithGenericTimer_def
  BlockWithDeadlineFrom_def BlockWithTimeout_def
  sleepStateUntouched_def fastPathReturn_def dropRemaining_def
  exampleDeps_def exampleTask_def exampleEnv_def Let_def word_sless_alt word_sle_eq

theorem fast_path_before_any_state_change_witness:
  "ready \<lparr>clen = 1, ccap = 1\<rparr>
   \<and> RaceEnabled exampleDeps \<and> onTaskGoroutine exampleEnv
   \<and> interrupted (exampleTask\<lparr>interruptChan := \<lparr>clen = 1, ccap = 1\<rparr>\<rparr>)
   \<and> Block exampleDeps exampleEnv (exampleTask\<lparr>interruptChan := \<lparr>clen = 1, ccap = 1\<rparr>\<rparr>)
         \<lparr>clen = 1, ccap = 1\<rparr>
       = Returns (None, exampleTask\<lparr>interruptChan := \<lparr>clen = 1, ccap = 1\<rparr>\<rparr>, \<lparr>clen = 0, ccap = 1\<rparr>)"
proof -
  have h1: "ready \<lparr>clen = 1, ccap = 1\<rparr>" by (simp add: ready_def)
  have h2: "RaceEnabled exampleDeps \<longrightarrow> onTaskGoroutine exampleEnv"
    by (simp add: exampleEnv_def)
  show ?thesis
    using fast_path_before_any_state_change [OF h1 h2,
        of "exampleTask\<lparr>interruptChan := \<lparr>clen = 1, ccap = 1\<rparr>\<rparr>"]
    by (simp add: ready_def recv_def interrupted_def exampleDeps_def exampleEnv_def exampleTask_def)
qed

subsection \<open>The remaining time of \<open>BlockWithTimeout\<close>\<close>

lemma clamp_nonneg: "0 \<le>s (if (r::64 word) <s 0 then 0 else r)"
  by (simp add: word_sle_eq word_sless_alt)

lemma clamp_int:
  fixes a b :: "64 word"
  assumes "- (2 ^ 63) \<le> sint a - sint b" "sint a - sint b < 2 ^ 63"
  shows "sint (if a - b <s 0 then 0 else a - b) = max 0 (sint a - sint b)"
proof -
  have "sint (a - b) = sint a - sint b"
    using assms by (simp add: sint_word_ariths signed_take_bit_int_eq_self)
  then show ?thesis by (simp add: word_sless_alt max_def)
qed

lemma BlockWithTimeout_cases:
  assumes "BlockWithTimeout d e t C True timeout = Returns (rem, err, t', C')"
  shows "blockWithDeadlineFromSampledClock d e t C (TimeAdd d (nowBefore e) timeout) = Returns (err, t', C')
     \<and> rem = (if err = Some ETIMEDOUT then 0
              else if timeout - TimeSub d (nowAfter e) (nowBefore e) <s 0 then 0
              else timeout - TimeSub d (nowAfter e) (nowBefore e))"
  using assms
  by (auto simp add: BlockWithTimeout_def Let_def split: outcome.splits if_splits)

text \<open>
  C1. Whenever \<open>BlockWithTimeout(C, true, timeout)\<close> returns: with the error
  \<open>ETIMEDOUT\<close> the remaining duration is exactly 0; otherwise it is \<open>timeout\<close> minus the
  time elapsed on the monotonic clock between entry and exit (\<open>end.Sub(start)\<close>),
  clamped at zero. In both cases it is never negative, whatever the two clock readings
  are. The subtraction is Go's on \<open>time.Duration\<close>, an \<open>int64\<close>; it is the subtraction
  of the integers whenever that difference is an \<open>int64\<close>.
\<close>

theorem BlockWithTimeout_remaining:
  assumes "BlockWithTimeout d e t C True timeout = Returns (rem, err, t', C')"
  shows "(err = Some ETIMEDOUT \<longrightarrow> rem = 0)
    \<and> (err \<noteq> Some ETIMEDOUT \<longrightarrow>
         rem = (if timeout - TimeSub d (nowAfter e) (nowBefore e) <s 0 then 0
                else timeout - TimeSub d (nowAfter e) (nowBefore e)))
    \<and> 0 \<le>s rem
    \<and> (err \<noteq> Some ETIMEDOUT
         \<and> - (2 ^ 63) \<le> sint timeout - sint (TimeSub d (nowAfter e) (nowBefore e))
         \<and> sint timeout - sint (TimeSub d (nowAfter e) (nowBefore e)) < 2 ^ 63 \<longrightarrow>
         sint rem = max 0 (sint timeout - sint (TimeSub d (nowAfter e) (nowBefore e))))"
proof -
  let ?r = "timeout - TimeSub d (nowAfter e) (nowBefore e)"
  have rem: "rem = (if err = Some ETIMEDOUT then 0 else if ?r <s 0 then 0 else ?r)"
    using BlockWithTimeout_cases [OF assms] by simp
  have nonneg: "0 \<le>s rem"
    using clamp_nonneg [of ?r] by (simp add: rem word_sle_eq)
  show ?thesis
    using rem nonneg clamp_int [of timeout "TimeSub d (nowAfter e) (nowBefore e)"] by simp
qed

theorem BlockWithTimeout_remaining_witness:
  "BlockWithTimeout exampleDeps (exampleEnv\<lparr>posted := 1\<rparr>) exampleTask \<lparr>clen = 0, ccap = 1\<rparr> True 20
     = Returns (15, None, exampleTask\<lparr>platformCtx := 1\<rparr>, \<lparr>clen = 0, ccap = 1\<rparr>)
   \<and> (0 :: 64 word) \<le>s 15
   \<and> sint (15 :: 64 word) = max 0 (sint (20 :: 64 word) - sint (5 :: 64 word))"
proof -
  have run: "BlockWithTimeout exampleDeps (exampleEnv\<lparr>posted := 1\<rparr>) exampleTask \<lparr>clen = 0, ccap = 1\<rparr> True 20
     = Returns (15, None, exampleTask\<lparr>platformCtx := 1\<rparr>, \<lparr>clen = 0, ccap = 1\<rparr>)"
    by (simp add: model_defs)
  show ?thesis
    using run BlockWithTimeout_remaining [OF run]
    by (simp add: exampleDeps_def exampleEnv_def)
qed

subsection \<open>Uninterruptible sleep\<close>

text \<open>
  C9. \<open>UninterruptibleSleepStart(d)\<close>, called on the task goroutine, deactivates the
  address space exactly when \<open>d\<close> is true and enters the blocked-uninterruptible
  accounting state, touching nothing else; \<open>UninterruptibleSleepFinish(d)\<close> then gives
  back the task as it was before the pair. The hooks are parameters: they are taken to
  be balanced on the task at hand, \<open>accountTaskGoroutineLeave\<close> undoing
  \<open>accountTaskGoroutineEnter\<close> and \<open>Activate\<close> undoing \<open>Deactivate\<close>.
\<close>

theorem UninterruptibleSleep_balanced:
  assumes "onTaskGoroutine e"
    and "accountTaskGoroutineLeave d TaskGoroutineBlockedUninterruptible
           (accountTaskGoroutineEnter d TaskGoroutineBlockedUninterruptible (gosched t)) = gosched t"
    and "Activate d (Deactivate d (addressSpace t)) = addressSpace t"
  shows "UninterruptibleSleepStart d e b t =
           Some (t\<lparr>addressSpace := (if b then Deactivate d (addressSpace t) else addressSpace t),
                   gosched := accountTaskGoroutineEnter d TaskGoroutineBlockedUninterruptible (gosched t)\<rparr>)
    \<and> map_option (UninterruptibleSleepFinish d b) (UninterruptibleSleepStart d e b t) = Some t"
  using assms
  by (simp add: UninterruptibleSleepStart_def UninterruptibleSleepFinish_def
      assertTaskGoroutine_def Let_def)

theorem UninterruptibleSleep_balanced_witness:
  "onTaskGoroutine exampleEnv
   \<and> UninterruptibleSleepStart exampleDeps exampleEnv True exampleTask =
       Some (exampleTask\<lparr>addressSpace := 0, gosched := ([TaskGoroutineBlockedUninterruptible], 0)\<rparr>)
   \<and> map_option (UninterruptibleSleepFinish exampleDeps True)
         (UninterruptibleSleepStart exampleDeps exampleEnv True exampleTask) = Some exampleTask"
proof -
  have h1: "onTaskGoroutine exampleEnv" by (simp add: exampleEnv_def)
  have h2: "accountTaskGoroutineLeave exampleDeps TaskGoroutineBlockedUninterruptible
           (accountTaskGoroutineEnter exampleDeps TaskGoroutineBlockedUninterruptible (gosched exampleTask))
           = gosched exampleTask"
    by (simp add: exampleDeps_def exampleTask_def)
  have h3: "Activate exampleDeps (Deactivate exampleDeps (addressSpace exampleTask)) = addressSpace exampleTask"
    by (simp add: exampleDeps_def)
  show ?thesis
    using h1 UninterruptibleSleep_balanced [OF h1 h2 h3, of True]
    by (auto simp add: exampleDeps_def exampleTask_def)
qed

subsection \<open>What a call of \<open>block\<close> returns\<close>

lemma select3_ready: "select3 order rc ri rt = Some w \<Longrightarrow> armReady rc ri rt w"
  by (auto simp add: select3_def find_Some_iff)

lemma select3_None: "select3 order rc ri rt = None \<longleftrightarrow> \<not> rc \<and> \<not> ri \<and> \<not> rt"
  by (auto simp add: select3_def find_None_iff armReady_def split: wake.splits)

lemma select3_only_interrupt: "\<not> rc \<Longrightarrow> ri \<Longrightarrow> \<not> rt \<Longrightarrow> select3 order rc ri rt = Some WokenByInterrupt"
proof -
  assume a: "\<not> rc" "ri" "\<not> rt"
  then obtain w where w: "select3 order rc ri rt = Some w"
    using select3_None [of order rc ri rt] by (cases "select3 order rc ri rt") auto
  from select3_ready [OF w] a have "w = WokenByInterrupt"
    by (cases w) (simp_all add: armReady_def)
  with w show ?thesis by simp
qed

text \<open>The event channel as the \<open>select\<close> finds it.\<close>

lemma waitSelect_chan: "snd (snd (waitSelect d e t C r)) = C\<lparr>clen := clen C + posted e\<rparr>"
  by (simp add: waitSelect_def arrive_def Let_def)

lemma waitSelect_ready:
  assumes "waitSelect d e t C r = (Some w, t3, C3)"
  shows "armReady (ready C3) (ready (interruptChan t3)) (0 < lenRef t3 r) w \<and> C3 = C\<lparr>clen := clen C + posted e\<rparr>"
  using assms select3_ready
  by (auto simp add: waitSelect_def arrive_def Let_def)

lemma block_result:
  assumes "block d e t C r = Returns (err, t', C')"
  shows "(err = None \<and> ready C \<and> C' = recv C \<and> t' = t)
       \<or> (\<not> ready C \<and> (\<exists>t2 t3. asleep d e t r = Some t2
             \<and> waitSelect d e t2 C r = (Some WokenByEvent, t3, C\<lparr>clen := clen C + posted e\<rparr>)
             \<and> err = None \<and> 0 < clen C + posted e \<and> C' = recv (C\<lparr>clen := clen C + posted e\<rparr>)
             \<and> t' = completeSleep d t3))
       \<or> (\<not> ready C \<and> (\<exists>t2 t3. asleep d e t r = Some t2
             \<and> waitSelect d e t2 C r = (Some WokenByInterrupt, t3, C\<lparr>clen := clen C + posted e\<rparr>)
             \<and> err = Some ErrInterrupted \<and> C' = C\<lparr>clen := clen C + posted e\<rparr>
             \<and> ready (interruptChan t3)
             \<and> t' = completeSleep d (interruptSelf (t3\<lparr>interruptChan := recv (interruptChan t3)\<rparr>))))
       \<or> (\<not> ready C \<and> (\<exists>t2 t3. asleep d e t r = Some t2
             \<and> waitSelect d e t2 C r = (Some WokenByTimer, t3, C\<lparr>clen := clen C + posted e\<rparr>)
             \<and> err = Some ETIMEDOUT \<and> C' = C\<lparr>clen := clen C + posted e\<rparr>
             \<and> r = blockingTimerChanRef \<and> 0 < clen (blockingTimerChan t3)
             \<and> t' = completeSleep d (t3\<lparr>blockingTimerChan := recv (blockingTimerChan t3)\<rparr>)))"
proof (cases "ready C")
  case True
  with assms show ?thesis by (auto simp add: block_def split: if_splits)
next
  case False
  from assms False obtain t2 where t2: "asleep d e t r = Some t2"
    by (auto simp add: block_def split: if_splits option.splits)
  obtain w0 t3 C3 where ws: "waitSelect d e t2 C r = (w0, t3, C3)"
    by (cases "waitSelect d e t2 C r") auto
  from assms False t2 ws obtain w where w: "w0 = Some w"
    by (cases w0) (auto simp add: block_def split: if_splits)
  note rd = waitSelect_ready [OF ws [unfolded w]]
  have C3: "C3 = C\<lparr>clen := clen C + posted e\<rparr>" using rd by simp
  show ?thesis
    using assms False t2 ws w rd
    by (cases w) (auto simp add: block_def armReady_def ready_def lenRef_def split: if_splits chanref.splits)
qed

lemma block_consumption:
  assumes "block d e t C r = Returns (err, t', C')"
  shows "(err = None \<longrightarrow> (ready C \<and> C' = recv C) \<or> (\<not> ready C \<and> 0 < posted e \<and> C' = recv (afterPosts e C)))
       \<and> (err = Some ErrInterrupted \<longrightarrow> \<not> ready C \<and> C' = afterPosts e C)
       \<and> (err = Some ETIMEDOUT \<longrightarrow> r = blockingTimerChanRef)"
  using block_result [OF assms]
  by (auto simp add: afterPosts_def ready_def)

lemma sampled_block:
  assumes "blockWithDeadlineFromSampledClock d e t C deadline = Returns (err, t', C')"
  shows "\<exists>t2. block d e (expireAt ExpiresBeforeWait e (SetClock \<lparr>Enabled = True, Next = deadline\<rparr> t)) C
           blockingTimerChanRef = Returns (err, t2, C')"
  using assms
  by (auto simp add: blockWithDeadlineFromSampledClock_def Let_def split: outcome.splits prod.splits)

lemma BlockWithTimeout_block:
  assumes "BlockWithTimeout d e t C haveTimeout timeout = Returns (rem, err, t', C')"
  shows "\<exists>t0 r t2. block d e t0 C r = Returns (err, t2, C')"
proof (cases haveTimeout)
  case True
  with assms BlockWithTimeout_cases [of d e t C timeout rem err t' C']
  have "blockWithDeadlineFromSampledClock d e t C (TimeAdd d (nowBefore e) timeout) = Returns (err, t', C')"
    by simp
  from sampled_block [OF this] show ?thesis by blast
next
  case False
  with assms show ?thesis
    by (auto simp add: BlockWithTimeout_def split: outcome.splits)
qed

text \<open>
  C2 (as amended). Whenever \<open>BlockWithTimeout\<close> returns a non-zero remaining duration,
  the returned error is not \<open>ETIMEDOUT\<close>: it is \<open>nil\<close>, and then exactly one value was
  taken from \<open>C\<close>, or it is \<open>ErrInterrupted\<close>, and then no value was taken from \<open>C\<close>.
\<close>

theorem nonzero_remaining_is_event_or_interrupt:
  assumes "BlockWithTimeout d e t C haveTimeout timeout = Returns (rem, err, t', C')" and "rem \<noteq> 0"
  shows "err \<noteq> Some ETIMEDOUT
     \<and> (err = None \<longrightarrow> (ready C \<and> C' = recv C) \<or> (\<not> ready C \<and> 0 < posted e \<and> C' = recv (afterPosts e C)))
     \<and> (err = Some ErrInterrupted \<longrightarrow> \<not> ready C \<and> C' = afterPosts e C)"
proof -
  obtain t0 r t2 where b: "block d e t0 C r = Returns (err, t2, C')"
    using BlockWithTimeout_block [OF assms(1)] by blast
  have "err \<noteq> Some ETIMEDOUT"
  proof (cases haveTimeout)
    case True
    with assms BlockWithTimeout_cases [of d e t C timeout rem err t' C'] show ?thesis by auto
  next
    case False
    with assms(1) obtain t3 where "block d e t C nilChan = Returns (err, t3, C')"
      by (auto simp add: BlockWithTimeout_def split: outcome.splits)
    from block_consumption [OF this] show ?thesis by auto
  qed
  with block_consumption [OF b] show ?thesis by simp
qed

theorem nonzero_remaining_is_event_or_interrupt_witness:
  "BlockWithTimeout exampleDeps (exampleEnv\<lparr>posted := 1\<rparr>) exampleTask \<lparr>clen = 0, ccap = 1\<rparr> True 20
     = Returns (15, None, exampleTask\<lparr>platformCtx := 1\<rparr>, \<lparr>clen = 0, ccap = 1\<rparr>)
   \<and> (15 :: 64 word) \<noteq> 0
   \<and> \<not> ready \<lparr>clen = 0, ccap = 1\<rparr>
   \<and> 0 < posted (exampleEnv\<lparr>posted := 1\<rparr>)
   \<and> \<lparr>clen = 0, ccap = 1\<rparr> = recv (afterPosts (exampleEnv\<lparr>posted := 1\<rparr>) \<lparr>clen = 0, ccap = 1\<rparr>)"
proof -
  have run: "BlockWithTimeout exampleDeps (exampleEnv\<lparr>posted := 1\<rparr>) exampleTask \<lparr>clen = 0, ccap = 1\<rparr> True 20
     = Returns (15, None, exampleTask\<lparr>platformCtx := 1\<rparr>, \<lparr>clen = 0, ccap = 1\<rparr>)"
    by (simp add: model_defs)
  have nz: "(15 :: 64 word) \<noteq> 0" by simp
  show ?thesis
    using run nz nonzero_remaining_is_event_or_interrupt [OF run nz]
    by (simp add: ready_def)
qed

text \<open>
  C2 as stated fails: a call that is interrupted before its timeout returns what is left
  of the timeout together with \<open>ErrInterrupted\<close>, and takes nothing from \<open>C\<close>. Here the
  task waits for 20ns on an empty channel and another goroutine interrupts it after 5ns.
\<close>

theorem nonzero_remaining_counterexample:
  "BlockWithTimeout exampleDeps (exampleEnv\<lparr>interruptedByOther := True\<rparr>) exampleTask
       \<lparr>clen = 0, ccap = 1\<rparr> True 20
     = Returns (15, Some ErrInterrupted,
                exampleTask\<lparr>platformCtx := 2, interruptChan := \<lparr>clen = 1, ccap = 1\<rparr>\<rparr>,
                \<lparr>clen = 0, ccap = 1\<rparr>)
   \<and> (15 :: 64 word) \<noteq> 0"
  by (simp add: model_defs)

subsection \<open>Interrupts\<close>

lemma asleep_Some:
  assumes "onTaskGoroutine e"
  shows "\<exists>t2. asleep d e t r = Some t2 \<and> interruptChan t2 = interruptChan t
           \<and> blockingTimerChan t2 = blockingTimerChan t"
  using assms by (simp add: asleep_def prepareSleep_def assertTaskGoroutine_def)

lemma asleep_interruptChan:
  "asleep d e t r = Some t2 \<Longrightarrow> interruptChan t2 = interruptChan t"
  by (auto simp add: asleep_def prepareSleep_def split: if_splits)

lemma trySend_ccap [simp]: "ccap (trySend c) = ccap c"
  by (simp add: trySend_def)

lemma trySend_clen: "clen c \<le> clen (trySend c)"
  by (simp add: trySend_def)

lemma arrive_interruptChan:
  "ccap (interruptChan (fst (arrive d e t C))) = ccap (interruptChan t)
   \<and> clen (interruptChan t) \<le> clen (interruptChan (fst (arrive d e t C)))"
  using trySend_clen [of "interruptChan t"]
  by (simp add: arrive_def expireAt_def interrupt_def interruptSelf_def Let_def)

lemma waitSelect_interruptChan:
  assumes "waitSelect d e t2 C r = (w, t3, C3)"
  shows "ccap (interruptChan t3) = ccap (interruptChan t2)"
  using assms arrive_interruptChan [of d e t2 C]
  by (auto simp add: waitSelect_def Let_def split: prod.splits)

lemma reposted:
  assumes "ready c" and "0 < ccap c"
  shows "clen (trySend (recv c)) \<noteq> 0"
  using assms by (auto simp add: ready_def recv_def trySend_def)

lemma block_Interrupted_iff:
  assumes "block d e t C r = Returns (err, t', C')"
  shows "(err = Some ErrInterrupted) = (\<not> ready C \<and> wokenBy d e t C r = Some WokenByInterrupt)"
  using block_result [OF assms] by (auto simp add: wokenBy_def)

lemma block_reposts:
  assumes "block d e t C r = Returns (Some ErrInterrupted, t', C')" and "0 < ccap (interruptChan t)"
  shows "interrupted t' \<and> fst (Interrupted d t') \<and> C' = afterPosts e C"
proof -
  from block_result [OF assms(1)] obtain t2 t3 where
    t2: "asleep d e t r = Some t2" and
    ws: "waitSelect d e t2 C r = (Some WokenByInterrupt, t3, C\<lparr>clen := clen C + posted e\<rparr>)" and
    C': "C' = C\<lparr>clen := clen C + posted e\<rparr>" and
    rd: "ready (interruptChan t3)" and
    t': "t' = completeSleep d (interruptSelf (t3\<lparr>interruptChan := recv (interruptChan t3)\<rparr>))"
    by auto
  have "0 < ccap (interruptChan t3)"
    using waitSelect_interruptChan [OF ws] asleep_interruptChan [OF t2] assms(2) by simp
  from reposted [OF rd this] have "interrupted t'"
    by (simp add: t' interrupted_def completeSleep_def interruptSelf_def)
  then show ?thesis by (simp add: Interrupted_def C' afterPosts_def)
qed

lemma block_pending_interrupt:
  assumes "interrupted t" and "\<not> ready C" and "onTaskGoroutine e" and "posted e = 0"
    and "r = nilChan \<or> (clen (blockingTimerChan t) = 0 \<and> expiry e \<noteq> ExpiresDuringWait)"
  shows "returned (block d e t C r) = Some (Some ErrInterrupted, C)"
proof -
  obtain t2 where t2: "asleep d e t r = Some t2" and i2: "interruptChan t2 = interruptChan t"
    and b2: "blockingTimerChan t2 = blockingTimerChan t"
    using asleep_Some [OF assms(3), of d t r] by blast
  obtain w t3 C3 where ws: "waitSelect d e t2 C r = (w, t3, C3)"
    by (cases "waitSelect d e t2 C r") auto
  have C3: "C3 = C" using ws assms(4) by (auto simp add: waitSelect_def arrive_def Let_def)
  have t3: "t3 = fst (arrive d e t2 C)"
    using ws by (auto simp add: waitSelect_def Let_def split: prod.splits)
  have ri: "ready (interruptChan t3)"
    using arrive_interruptChan [of d e t2 C] assms(1) i2 by (simp add: t3 ready_def interrupted_def)
  have rt: "\<not> 0 < lenRef t3 r"
    using assms(5) b2
    by (auto simp add: t3 lenRef_def arrive_def expireAt_def interrupt_def interruptSelf_def Let_def
        split: chanref.splits)
  have "w = Some WokenByInterrupt"
    using ws select3_only_interrupt [of "ready C" "ready (interruptChan t3)" "0 < lenRef t3 r" "choice e"]
      ri rt assms(2) C3
    by (auto simp add: waitSelect_def Let_def split: prod.splits)
  then show ?thesis
    using t2 ws assms(2,3) C3 by (simp add: block_def returned_def assertTaskGoroutine_def)
qed

lemma returned_sampled:
  "returned (blockWithDeadlineFromSampledClock d e t C deadline)
     = returned (block d e (expireAt ExpiresBeforeWait e (SetClock \<lparr>Enabled = True, Next = deadline\<rparr> t)) C
         blockingTimerChanRef)"
  by (simp add: blockWithDeadlineFromSampledClock_def returned_def Let_def split: outcome.splits prod.splits)

lemma returned_generic:
  "returned (blockWithGenericTimer d e t C deadline)
     = returned (block d e (expireAt ExpiresBeforeWait e
           (snd (SetGenericTimer False \<lparr>Enabled = True, Next = deadline\<rparr> (NewTimer t)))) C
         blockingTimerChanRef)"
  by (simp add: blockWithGenericTimer_def returned_def Let_def split: outcome.splits prod.splits)

lemma sampled_pending_interrupt:
  assumes "interrupted t" and "\<not> ready C" and "onTaskGoroutine e" and "posted e = 0" and "quietTimer e t"
  shows "returned (blockWithDeadlineFromSampledClock d e t C deadline) = Some (Some ErrInterrupted, C)"
proof -
  let ?t1 = "expireAt ExpiresBeforeWait e (SetClock \<lparr>Enabled = True, Next = deadline\<rparr> t)"
  have t1: "?t1 = SetClock \<lparr>Enabled = True, Next = deadline\<rparr> t"
    using assms(5) by (simp add: quietTimer_def expireAt_def)
  have i: "interrupted ?t1" using assms(1) unfolding t1 by (simp add: SetClock_def interrupted_def)
  have q: "blockingTimerChanRef = nilChan \<or> (clen (blockingTimerChan ?t1) = 0 \<and> expiry e \<noteq> ExpiresDuringWait)"
    using assms(5) unfolding t1 by (simp add: SetClock_def quietTimer_def)
  show ?thesis
    using block_pending_interrupt [OF i assms(2,3,4) q] by (simp add: returned_sampled)
qed

lemma generic_pending_interrupt:
  assumes "interrupted t" and "\<not> ready C" and "onTaskGoroutine e" and "posted e = 0" and "quietTimer e t"
  shows "returned (blockWithGenericTimer d e t C deadline) = Some (Some ErrInterrupted, C)"
proof -
  let ?t0 = "snd (SetGenericTimer False \<lparr>Enabled = True, Next = deadline\<rparr> (NewTimer t))"
  let ?t1 = "expireAt ExpiresBeforeWait e ?t0"
  have t1: "?t1 = ?t0"
    using assms(5) by (simp add: quietTimer_def expireAt_def)
  have i: "interrupted ?t1"
    using assms(1) unfolding t1 by (simp add: SetGenericTimer_def NewTimer_def interrupted_def)
  have q: "blockingTimerChanRef = nilChan \<or> (clen (blockingTimerChan ?t1) = 0 \<and> expiry e \<noteq> ExpiresDuringWait)"
    using assms(5) unfolding t1 by (simp add: SetGenericTimer_def NewTimer_def quietTimer_def)
  show ?thesis
    using block_pending_interrupt [OF i assms(2,3,4) q] by (simp add: returned_generic)
qed

lemma family_pending_interrupt:
  assumes "interrupted t" and "\<not> ready C" and "onTaskGoroutine e" and "posted e = 0" and "quietTimer e t"
  shows "returned (Block d e t C) = Some (Some ErrInterrupted, C)
       \<and> returned (BlockWithDeadline d e t C haveDeadline deadline) = Some (Some ErrInterrupted, C)
       \<and> returned (BlockWithDeadlineFrom d e t C clk haveDeadline deadline) = Some (Some ErrInterrupted, C)
       \<and> returned (dropRemaining (BlockWithTimeout d e t C haveTimeout timeout)) = Some (Some ErrInterrupted, C)"
proof -
  have plain: "returned (block d e t C nilChan) = Some (Some ErrInterrupted, C)"
    using block_pending_interrupt [OF assms(1,2,3,4)] by simp
  note smp = sampled_pending_interrupt [OF assms]
  note gen = generic_pending_interrupt [OF assms]
  have dl: "returned (BlockWithDeadline d e t C haveDeadline deadline) = Some (Some ErrInterrupted, C)"
    using plain smp by (simp add: BlockWithDeadline_def)
  have "returned (case blockWithGenericTimer d e t C deadline of
            Returns (err, t1, C') \<Rightarrow> Returns (err, Destroy t1, C')
          | Panics \<Rightarrow> Panics | BlocksForever \<Rightarrow> BlocksForever)
        = returned (blockWithGenericTimer d e t C deadline)"
    by (simp add: returned_def split: outcome.splits)
  then have dlf: "returned (BlockWithDeadlineFrom d e t C clk haveDeadline deadline) = Some (Some ErrInterrupted, C)"
    using plain smp gen by (cases clk) (simp_all add: BlockWithDeadlineFrom_def)
  have tmo: "returned (dropRemaining (BlockWithTimeout d e t C haveTimeout timeout)) = Some (Some ErrInterrupted, C)"
    using plain smp [of d "TimeAdd d (nowBefore e) timeout"]
    by (auto simp add: BlockWithTimeout_def dropRemaining_def returned_def Let_def split: outcome.splits)
  show ?thesis using plain dl dlf tmo by (simp add: Block_def)
qed

text \<open>
  C5 (as amended). A call of \<open>block\<close>, and with it every call of the block family,
  returns \<open>ErrInterrupted\<close> exactly when the fast path was missed and its \<open>select\<close> took
  the interrupt arm. On that path nothing is taken from \<open>C\<close> and, the interrupt slot
  having room for one value, \<open>interruptSelf\<close> fills it again, so that \<open>Interrupted()\<close>
  is true afterwards. With an interrupt pending at entry, a call made on the task
  goroutine returns \<open>ErrInterrupted\<close> and takes nothing from \<open>C\<close> whenever no other arm is
  ready when the \<open>select\<close> chooses: \<open>C\<close> is empty at entry, nothing is sent on it
  meanwhile, and the timer channel is empty and stays so. When another arm is ready as
  well, the runtime chooses among the ready arms.
\<close>

theorem interrupt_wakes_with_Interrupted:
  "(block d e t C r = Returns (err, t', C') \<longrightarrow>
      ((err = Some ErrInterrupted) = (\<not> ready C \<and> wokenBy d e t C r = Some WokenByInterrupt))
      \<and> (err = Some ErrInterrupted \<and> 0 < ccap (interruptChan t) \<longrightarrow>
           interrupted t' \<and> fst (Interrupted d t') \<and> C' = afterPosts e C))
   \<and> (interrupted t \<and> \<not> ready C \<and> onTaskGoroutine e \<and> posted e = 0 \<and> quietTimer e t \<longrightarrow>
        returned (Block d e t C) = Some (Some ErrInterrupted, C)
        \<and> returned (BlockWithDeadline d e t C haveDeadline deadline) = Some (Some ErrInterrupted, C)
        \<and> returned (BlockWithDeadlineFrom d e t C clk haveDeadline deadline) = Some (Some ErrInterrupted, C)
        \<and> returned (dropRemaining (BlockWithTimeout d e t C haveTimeout timeout))
            = Some (Some ErrInterrupted, C))"
  using block_Interrupted_iff [of d e t C r err t' C'] block_reposts [of d e t C r t' C']
    family_pending_interrupt [of t C e d haveDeadline deadline clk haveTimeout timeout]
  by blast

theorem interrupt_wakes_with_Interrupted_witness:
  "interrupted (exampleTask\<lparr>interruptChan := \<lparr>clen = 1, ccap = 1\<rparr>\<rparr>)
   \<and> \<not> ready \<lparr>clen = 0, ccap = 1\<rparr>
   \<and> onTaskGoroutine exampleEnv \<and> posted exampleEnv = 0
   \<and> quietTimer exampleEnv (exampleTask\<lparr>interruptChan := \<lparr>clen = 1, ccap = 1\<rparr>\<rparr>)
   \<and> returned (Block exampleDeps exampleEnv (exampleTask\<lparr>interruptChan := \<lparr>clen = 1, ccap = 1\<rparr>\<rparr>)
         \<lparr>clen = 0, ccap = 1\<rparr>) = Some (Some ErrInterrupted, \<lparr>clen = 0, ccap = 1\<rparr>)"
proof -
  have h: "interrupted (exampleTask\<lparr>interruptChan := \<lparr>clen = 1, ccap = 1\<rparr>\<rparr>)
     \<and> \<not> ready \<lparr>clen = 0, ccap = 1\<rparr>
     \<and> onTaskGoroutine exampleEnv \<and> posted exampleEnv = 0
     \<and> quietTimer exampleEnv (exampleTask\<lparr>interruptChan := \<lparr>clen = 1, ccap = 1\<rparr>\<rparr>)"
    by (simp add: interrupted_def ready_def quietTimer_def exampleEnv_def exampleTask_def)
  show ?thesis
    using h interrupt_wakes_with_Interrupted [where d = exampleDeps and e = exampleEnv
        and t = "exampleTask\<lparr>interruptChan := \<lparr>clen = 1, ccap = 1\<rparr>\<rparr>"
        and C = "\<lparr>clen = 0, ccap = 1\<rparr>"]
    by blast
qed

text \<open>
  C5 as stated fails: with an interrupt pending and \<open>C\<close> empty, so that the fast path
  does not fire, a call whose deadline has already passed finds both the interrupt arm
  and the timer arm ready, and the runtime may take the timer arm: the call returns
  \<open>ETIMEDOUT\<close>, not \<open>ErrInterrupted\<close>.
\<close>

theorem pending_interrupt_counterexample:
  "interrupted (exampleTask\<lparr>interruptChan := \<lparr>clen = 1, ccap = 1\<rparr>\<rparr>)
   \<and> \<not> ready \<lparr>clen = 0, ccap = 1\<rparr>
   \<and> BlockWithDeadline exampleDeps (exampleEnv\<lparr>expiry := ExpiresBeforeWait, choice := [WokenByTimer]\<rparr>)
         (exampleTask\<lparr>interruptChan := \<lparr>clen = 1, ccap = 1\<rparr>\<rparr>) \<lparr>clen = 0, ccap = 1\<rparr> True 100
       = Returns (Some ETIMEDOUT,
                  exampleTask\<lparr>interruptChan := \<lparr>clen = 1, ccap = 1\<rparr>, platformCtx := 1, yields := 1\<rparr>,
                  \<lparr>clen = 0, ccap = 1\<rparr>)"
  by (simp add: model_defs)

subsection \<open>The blocking timer after a call\<close>

lemma expire_slotClean: "ccap (blockingTimerChan t) \<le> 1 \<Longrightarrow> clen (blockingTimerChan t) \<le> 1 \<Longrightarrow> slotClean (expire t)"
  by (auto simp add: slotClean_def expire_def trySend_def Let_def split: option.splits)

lemma slotClean_expire: "slotClean t \<Longrightarrow> slotClean (expire t)"
  using expire_slotClean [of t] by (simp add: slotClean_def)

lemma asleep_timer:
  "asleep d e t r = Some t2 \<Longrightarrow>
     blockingTimerChan t2 = blockingTimerChan t \<and> blockingTimer t2 = blockingTimer t
     \<and> genericTimer t2 = genericTimer t"
  by (auto simp add: asleep_def prepareSleep_def split: if_splits)

lemma slotClean_cong:
  "blockingTimerChan t2 = blockingTimerChan t \<Longrightarrow> blockingTimer t2 = blockingTimer t
     \<Longrightarrow> genericTimer t2 = genericTimer t \<Longrightarrow> slotClean t2 = slotClean t"
  by (simp add: slotClean_def)

lemma arrive_slotClean:
  assumes "slotClean t"
  shows "slotClean (fst (arrive d e t C))"
proof -
  let ?t1 = "if interruptedByOther e then interrupt d t else t"
  have "slotClean ?t1"
    using assms by (simp add: slotClean_def interrupt_def interruptSelf_def Let_def)
  then have "slotClean (expireAt ExpiresDuringWait e ?t1)"
    by (auto simp add: expireAt_def intro: slotClean_expire)
  then show ?thesis by (simp add: arrive_def Let_def)
qed

lemma waitSelect_slotClean:
  assumes "slotClean t" and "waitSelect d e t C r = (w, t3, C3)"
  shows "slotClean t3"
  using arrive_slotClean [OF assms(1), of d e C] assms(2)
  by (auto simp add: waitSelect_def Let_def split: prod.splits)

lemma block_slotClean:
  assumes "slotClean t" and "block d e t C r = Returns (err, t', C')"
  shows "slotClean t'"
proof -
  have wake: "slotClean t'" if t2: "asleep d e t r = Some t2" and ws: "waitSelect d e t2 C r = (w, t3, C3)"
    and t': "t' = completeSleep d t3
           \<or> t' = completeSleep d (interruptSelf (t3\<lparr>interruptChan := recv (interruptChan t3)\<rparr>))
           \<or> t' = completeSleep d (t3\<lparr>blockingTimerChan := recv (blockingTimerChan t3)\<rparr>)"
    for t2 w t3 C3
  proof -
    have "slotClean t2" using assms(1) asleep_timer [OF t2] by (simp add: slotClean_def)
    from waitSelect_slotClean [OF this ws] have "slotClean t3" .
    then show ?thesis
      using t' by (auto simp add: slotClean_def completeSleep_def interruptSelf_def recv_def)
  qed
  from block_result [OF assms(2)] show ?thesis
    using assms(1) wake by blast
qed

lemma tryRecv_empties: "clen c \<le> 1 \<Longrightarrow> clen (tryRecv c) = 0"
  by (simp add: tryRecv_def ready_def recv_def)

lemma sampled_hygiene:
  assumes ret: "blockWithDeadlineFromSampledClock d e t C deadline = Returns (err, t', C')"
  shows "(\<exists>t2 s t3.
            block d e (expireAt ExpiresBeforeWait e (SetClock \<lparr>Enabled = True, Next = deadline\<rparr> t)) C
              blockingTimerChanRef = Returns (err, t2, C')
          \<and> SetBlockingTimer (expiry e = ExpiresAfterWake) zeroSetting t2 = (s, t3)
          \<and> blockingTimer t' = zeroSetting
          \<and> blockingTimerChan t' = (if Enabled s then blockingTimerChan t3 else tryRecv (blockingTimerChan t3)))
       \<and> (clen (blockingTimerChan t) = 0 \<and> ccap (blockingTimerChan t) \<le> 1 \<longrightarrow> clen (blockingTimerChan t') = 0)"
proof -
  let ?t1 = "expireAt ExpiresBeforeWait e (SetClock \<lparr>Enabled = True, Next = deadline\<rparr> t)"
  obtain t2 where b: "block d e ?t1 C blockingTimerChanRef = Returns (err, t2, C')"
    using sampled_block [OF ret] by blast
  obtain s t3 where st: "SetBlockingTimer (expiry e = ExpiresAfterWake) zeroSetting t2 = (s, t3)"
    by (cases "SetBlockingTimer (expiry e = ExpiresAfterWake) zeroSetting t2") auto
  have t': "t' = (if \<not> Enabled s then t3\<lparr>blockingTimerChan := tryRecv (blockingTimerChan t3)\<rparr> else t3)"
    using ret b st by (simp add: blockWithDeadlineFromSampledClock_def Let_def)
  have t3: "blockingTimer t3 = zeroSetting"
    using st by (auto simp add: SetBlockingTimer_def Let_def)
  have first: "blockingTimer t' = zeroSetting
     \<and> blockingTimerChan t' = (if Enabled s then blockingTimerChan t3 else tryRecv (blockingTimerChan t3))"
    using t' t3 by simp
  have second: "clen (blockingTimerChan t') = 0"
    if empty: "clen (blockingTimerChan t) = 0" and slot: "ccap (blockingTimerChan t) \<le> 1"
  proof -
    have "slotClean (SetClock \<lparr>Enabled = True, Next = deadline\<rparr> t)"
      using empty slot by (simp add: slotClean_def SetClock_def)
    then have "slotClean ?t1" by (auto simp add: expireAt_def intro: slotClean_expire)
    from block_slotClean [OF this b] have c2: "slotClean t2" .
    let ?t2' = "if expiry e = ExpiresAfterWake then expire t2 else t2"
    have c2': "slotClean ?t2'" using c2 by (auto intro: slotClean_expire)
    have s: "s = blockingTimer ?t2'" and c3: "blockingTimerChan t3 = blockingTimerChan ?t2'"
      using st by (auto simp add: SetBlockingTimer_def Let_def)
    show ?thesis
      using c2' tryRecv_empties [of "blockingTimerChan ?t2'"]
      unfolding t' s c3 [symmetric] slotClean_def
      by (auto simp add: c3)
  qed
  show ?thesis using b st first second by blast
qed

lemma generic_block:
  assumes "blockWithGenericTimer d e t C deadline = Returns (err, t', C')"
  shows "\<exists>t2. block d e (expireAt ExpiresBeforeWait e
             (snd (SetGenericTimer False \<lparr>Enabled = True, Next = deadline\<rparr> (NewTimer t)))) C
           blockingTimerChanRef = Returns (err, t2, C')"
  using assms
  by (auto simp add: blockWithGenericTimer_def Let_def split: outcome.splits prod.splits)

lemma generic_hygiene:
  assumes ret: "blockWithGenericTimer d e t C deadline = Returns (err, t', C')"
  shows "(\<exists>t2 s t3.
            block d e (expireAt ExpiresBeforeWait e
                (snd (SetGenericTimer False \<lparr>Enabled = True, Next = deadline\<rparr> (NewTimer t)))) C
              blockingTimerChanRef = Returns (err, t2, C')
          \<and> SetGenericTimer (expiry e = ExpiresAfterWake) zeroSetting t2 = (s, t3)
          \<and> genericTimer t' = Some zeroSetting
          \<and> blockingTimerChan t' = (if Enabled s then blockingTimerChan t3 else tryRecv (blockingTimerChan t3)))
       \<and> (clen (blockingTimerChan t) = 0 \<and> ccap (blockingTimerChan t) \<le> 1 \<longrightarrow> clen (blockingTimerChan t') = 0)"
proof -
  let ?t0 = "snd (SetGenericTimer False \<lparr>Enabled = True, Next = deadline\<rparr> (NewTimer t))"
  let ?t1 = "expireAt ExpiresBeforeWait e ?t0"
  obtain t2 where b: "block d e ?t1 C blockingTimerChanRef = Returns (err, t2, C')"
    using generic_block [OF ret] by blast
  obtain s t3 where st: "SetGenericTimer (expiry e = ExpiresAfterWake) zeroSetting t2 = (s, t3)"
    by (cases "SetGenericTimer (expiry e = ExpiresAfterWake) zeroSetting t2") auto
  have t': "t' = (if \<not> Enabled s then t3\<lparr>blockingTimerChan := tryRecv (blockingTimerChan t3)\<rparr> else t3)"
    using ret b st by (auto simp add: blockWithGenericTimer_def Let_def split: prod.splits)
  have t3: "genericTimer t3 = Some zeroSetting"
    using st by (auto simp add: SetGenericTimer_def Let_def)
  have first: "genericTimer t' = Some zeroSetting
     \<and> blockingTimerChan t' = (if Enabled s then blockingTimerChan t3 else tryRecv (blockingTimerChan t3))"
    using t' t3 by simp
  have second: "clen (blockingTimerChan t') = 0"
    if empty: "clen (blockingTimerChan t) = 0" and slot: "ccap (blockingTimerChan t) \<le> 1"
  proof -
    have "slotClean ?t0"
      using empty slot by (simp add: slotClean_def SetGenericTimer_def NewTimer_def)
    then have "slotClean ?t1" by (auto simp add: expireAt_def intro: slotClean_expire)
    from block_slotClean [OF this b] have c2: "slotClean t2" .
    let ?t2' = "if expiry e = ExpiresAfterWake then expire t2 else t2"
    have c2': "slotClean ?t2'" using c2 by (auto intro: slotClean_expire)
    have s: "s = (case genericTimer ?t2' of None \<Rightarrow> zeroSetting | Some old \<Rightarrow> old)"
      and c3: "blockingTimerChan t3 = blockingTimerChan ?t2'"
      using st by (auto simp add: SetGenericTimer_def Let_def)
    have armed: "Enabled s \<Longrightarrow> clen (blockingTimerChan ?t2') = 0"
      using c2' unfolding s slotClean_def by (auto simp add: zeroSetting_def split: option.splits)
    have "clen (blockingTimerChan ?t2') \<le> 1" using c2' by (simp add: slotClean_def)
    from tryRecv_empties [OF this] armed show ?thesis
      unfolding t' by (simp add: c3)
  qed
  show ?thesis using b st first second by blast
qed

lemma DeadlineFrom_generic_destroys:
  assumes "BlockWithDeadlineFrom d e t C GenericClock True deadline = Returns (err, t', C')"
  shows "\<exists>t1. blockWithGenericTimer d e t C deadline = Returns (err, t1, C') \<and> t' = Destroy t1"
  using assms by (auto simp add: BlockWithDeadlineFrom_def split: outcome.splits)

text \<open>
  C3 (as amended). When a call with a deadline returns, its timer is disarmed: the
  task's blocking timer holds the zero setting on a sampled clock, and the timer made
  for another clock holds it and is then destroyed. The timer channel is drained only
  if the disarming \<open>Set\<close> reports a setting that is no longer enabled, that is, the
  timer has already fired; if it reports a timer that is still armed the channel is
  left as it is. With a single-slot timer channel that is empty at entry, the channel
  is empty again when the call returns.
\<close>

theorem timer_disarmed_and_drained_once_fired:
  "(blockWithDeadlineFromSampledClock d e t C deadline = Returns (err, t', C') \<longrightarrow>
      (\<exists>t2 s t3.
          block d e (expireAt ExpiresBeforeWait e (SetClock \<lparr>Enabled = True, Next = deadline\<rparr> t)) C
            blockingTimerChanRef = Returns (err, t2, C')
        \<and> SetBlockingTimer (expiry e = ExpiresAfterWake) zeroSetting t2 = (s, t3)
        \<and> blockingTimer t' = zeroSetting
        \<and> blockingTimerChan t' = (if Enabled s then blockingTimerChan t3 else tryRecv (blockingTimerChan t3)))
      \<and> (clen (blockingTimerChan t) = 0 \<and> ccap (blockingTimerChan t) \<le> 1 \<longrightarrow>
           clen (blockingTimerChan t') = 0))
   \<and> (blockWithGenericTimer d e t C deadline = Returns (err, t', C') \<longrightarrow>
      (\<exists>t2 s t3.
          block d e (expireAt ExpiresBeforeWait e
              (snd (SetGenericTimer False \<lparr>Enabled = True, Next = deadline\<rparr> (NewTimer t)))) C
            blockingTimerChanRef = Returns (err, t2, C')
        \<and> SetGenericTimer (expiry e = ExpiresAfterWake) zeroSetting t2 = (s, t3)
        \<and> genericTimer t' = Some zeroSetting
        \<and> blockingTimerChan t' = (if Enabled s then blockingTimerChan t3 else tryRecv (blockingTimerChan t3)))
      \<and> (clen (blockingTimerChan t) = 0 \<and> ccap (blockingTimerChan t) \<le> 1 \<longrightarrow>
           clen (blockingTimerChan t') = 0))
   \<and> (BlockWithDeadlineFrom d e t C GenericClock True deadline = Returns (err, t', C') \<longrightarrow>
      genericTimer t' = None
      \<and> (clen (blockingTimerChan t) = 0 \<and> ccap (blockingTimerChan t) \<le> 1 \<longrightarrow>
           clen (blockingTimerChan t') = 0))"
proof (intro conjI impI)
  assume "BlockWithDeadlineFrom d e t C GenericClock True deadline = Returns (err, t', C')"
  then obtain t1 where t1: "blockWithGenericTimer d e t C deadline = Returns (err, t1, C')"
    and t': "t' = Destroy t1"
    using DeadlineFrom_generic_destroys by blast
  show "genericTimer t' = None" by (simp add: t' Destroy_def)
  assume "clen (blockingTimerChan t) = 0 \<and> ccap (blockingTimerChan t) \<le> 1"
  with generic_hygiene [OF t1] show "clen (blockingTimerChan t') = 0"
    by (simp add: t' Destroy_def)
qed (use sampled_hygiene generic_hygiene in blast)+

theorem timer_disarmed_and_drained_once_fired_witness:
  "blockWithDeadlineFromSampledClock exampleDeps
       (exampleEnv\<lparr>posted := 1, expiry := ExpiresDuringWait, choice := [WokenByEvent]\<rparr>)
       exampleTask \<lparr>clen = 0, ccap = 1\<rparr> 100
     = Returns (None, exampleTask\<lparr>platformCtx := 1\<rparr>, \<lparr>clen = 0, ccap = 1\<rparr>)
   \<and> clen (blockingTimerChan exampleTask) = 0 \<and> ccap (blockingTimerChan exampleTask) \<le> 1
   \<and> blockingTimer (exampleTask\<lparr>platformCtx := 1\<rparr>) = zeroSetting
   \<and> clen (blockingTimerChan (exampleTask\<lparr>platformCtx := 1\<rparr>)) = 0"
proof -
  let ?e = "exampleEnv\<lparr>posted := 1, expiry := ExpiresDuringWait, choice := [WokenByEvent]\<rparr>"
  have run: "blockWithDeadlineFromSampledClock exampleDeps ?e exampleTask \<lparr>clen = 0, ccap = 1\<rparr> 100
     = Returns (None, exampleTask\<lparr>platformCtx := 1\<rparr>, \<lparr>clen = 0, ccap = 1\<rparr>)"
    by (simp add: model_defs)
  have slot: "clen (blockingTimerChan exampleTask) = 0 \<and> ccap (blockingTimerChan exampleTask) \<le> 1"
    by (simp add: exampleTask_def)
  show ?thesis
    using run slot
      timer_disarmed_and_drained_once_fired [where d = exampleDeps and e = ?e and t = exampleTask
        and C = "\<lparr>clen = 0, ccap = 1\<rparr>" and deadline = 100 and err = None
        and t' = "exampleTask\<lparr>platformCtx := 1\<rparr>" and C' = "\<lparr>clen = 0, ccap = 1\<rparr>"]
    by blast
qed

text \<open>
  C3 as stated fails: it has the condition of the drain the wrong way round. Here an
  event and the expiry arrive during the wait and the \<open>select\<close> takes the event, so the
  fired value is still in the timer channel when \<open>block\<close> returns; the disarming
  \<open>Set\<close> reports a setting that is not enabled, and the channel is drained, not left as
  it is.
\<close>

theorem timer_drain_counterexample:
  "block exampleDeps (exampleEnv\<lparr>posted := 1, expiry := ExpiresDuringWait, choice := [WokenByEvent]\<rparr>)
       (expireAt ExpiresBeforeWait
          (exampleEnv\<lparr>posted := 1, expiry := ExpiresDuringWait, choice := [WokenByEvent]\<rparr>)
          (SetClock \<lparr>Enabled = True, Next = 100\<rparr> exampleTask))
       \<lparr>clen = 0, ccap = 1\<rparr> blockingTimerChanRef
     = Returns (None,
                exampleTask\<lparr>platformCtx := 1, blockingTimerChan := \<lparr>clen = 1, ccap = 1\<rparr>,
                            blockingTimer := \<lparr>Enabled = False, Next = 100\<rparr>\<rparr>,
                \<lparr>clen = 0, ccap = 1\<rparr>)
   \<and> \<not> Enabled (fst (SetBlockingTimer False zeroSetting
          (exampleTask\<lparr>platformCtx := 1, blockingTimerChan := \<lparr>clen = 1, ccap = 1\<rparr>,
                      blockingTimer := \<lparr>Enabled = False, Next = 100\<rparr>\<rparr>)))
   \<and> blockWithDeadlineFromSampledClock exampleDeps
         (exampleEnv\<lparr>posted := 1, expiry := ExpiresDuringWait, choice := [WokenByEvent]\<rparr>)
         exampleTask \<lparr>clen = 0, ccap = 1\<rparr> 100
       = Returns (None, exampleTask\<lparr>platformCtx := 1\<rparr>, \<lparr>clen = 0, ccap = 1\<rparr>)
   \<and> clen (blockingTimerChan (exampleTask\<lparr>platformCtx := 1\<rparr>)) = 0"
  by (simp add: model_defs)

section \<open>Properties of PID namespaces\<close>

subsection \<open>Lookups\<close>

lemma RLock_RUnlock:
  assumes "taskSets h a = Some ts" and "\<not> writer (mu ts)"
  shows "\<exists>h1. RLock h (Some a) = Returns h1 \<and> (\<forall>v. unlockReturn h1 (Some a) v = Returns (v, h))
           \<and> taskNodes h1 = taskNodes h \<and> threadGroups h1 = threadGroups h"
proof -
  have "h\<lparr>taskSets := (taskSets h)(a \<mapsto> ts)\<rparr> = h"
    using assms(1) by (simp add: fun_upd_idem)
  then show ?thesis
    using assms by (simp add: RLock_def unlockReturn_def RUnlock_def)
qed

lemma lookup_total:
  assumes ns: "pidNamespaces h a = Some ns" and ow: "owner ns = Some o'" and ts: "taskSets h o' = Some ts"
    and w: "\<not> writer (mu ts)"
  shows "TaskWithID h (Some a) tid = Returns (lookupPtr (tasks ns) tid, h)"
    and "IDOfTask h (Some a) t = Returns (lookupID (tids ns) t, h)"
    and "IDOfThreadGroup h (Some a) g = Returns (lookupID (tgids ns) g, h)"
  using RLock_RUnlock [OF ts w] ns ow
  by (auto simp add: TaskWithID_def IDOfTask_def IDOfThreadGroup_def deref_def)

lemma tgwid_absent:
  assumes ns: "pidNamespaces h a = Some ns" and ow: "owner ns = Some o'" and ts: "taskSets h o' = Some ts"
    and w: "\<not> writer (mu ts)" and "lookupPtr (tasks ns) tid = None"
  shows "ThreadGroupWithID h (Some a) tid = Returns (None, h)"
  using RLock_RUnlock [OF ts w] ns ow assms(5)
  by (auto simp add: ThreadGroupWithID_def deref_def)

lemma tgwid_present:
  assumes ns: "pidNamespaces h a = Some ns" and ow: "owner ns = Some o'" and ts: "taskSets h o' = Some ts"
    and w: "\<not> writer (mu ts)" and t: "tasks ns tid = Some (Some t)"
    and tn: "taskNodes h t = Some tn" and g: "deref (threadGroups h) (tg tn) = Some n"
  shows "ThreadGroupWithID h (Some a) tid = Returns (if leader n = Some t then tg tn else None, h)"
  using RLock_RUnlock [OF ts w] ns ow t tn g
  by (auto simp add: ThreadGroupWithID_def deref_def lookupPtr_def)

lemma unlockReturn_heap:
  "unlockReturn h1 p v = Returns (x, h2) \<Longrightarrow> RUnlock h1 p = Returns h2 \<and> x = v"
  by (auto simp add: unlockReturn_def split: outcome.splits)

lemma RLock_then_RUnlock:
  assumes "RLock h p = Returns h1" and "RUnlock h1 p = Returns h2"
  shows "h2 = h"
proof -
  from assms(1) obtain a ts where p: "p = Some a" and ts: "taskSets h a = Some ts"
    and h1: "h1 = h\<lparr>taskSets := (taskSets h)(a \<mapsto> ts\<lparr>mu := (mu ts)\<lparr>readers := readers (mu ts) + 1\<rparr>\<rparr>)\<rparr>"
    by (auto simp add: RLock_def split: option.splits if_splits)
  have "h\<lparr>taskSets := (taskSets h)(a \<mapsto> ts)\<rparr> = h"
    using ts by (simp add: fun_upd_idem)
  then show ?thesis
    using assms(2) by (simp add: RUnlock_def p h1)
qed

lemma lookups_pure:
  "TaskWithID h nsp tid = Returns (x, h') \<Longrightarrow> h' = h"
  "ThreadGroupWithID h nsp tid = Returns (x, h') \<Longrightarrow> h' = h"
  "IDOfTask h nsp t = Returns (y, h') \<Longrightarrow> h' = h"
  "IDOfThreadGroup h nsp g = Returns (y, h') \<Longrightarrow> h' = h"
  by (auto simp add: TaskWithID_def ThreadGroupWithID_def IDOfTask_def IDOfThreadGroup_def Let_def
      split: option.splits outcome.splits if_splits
      dest!: unlockReturn_heap dest: RLock_then_RUnlock)

text \<open>
  C7. On a namespace whose owner is set, and while no writer holds the lock of that
  task set, the four lookups return and leave the heap as it was, the lock included.
  \<open>TaskWithID\<close> returns \<open>nil\<close> when no task has the thread ID; \<open>IDOfTask\<close> returns 0 for
  a task without an entry in \<open>tids\<close>, hence for a task that is no value of \<open>tasks\<close>
  when the two maps are inverse to each other, and for \<open>nil\<close>, which has no entry in a
  namespace that satisfies the invariant;
  \<open>IDOfThreadGroup\<close> returns 0 for a thread group without an entry in \<open>tgids\<close>;
  \<open>ThreadGroupWithID\<close> returns \<open>nil\<close> when no task has the thread ID and when the task
  that has it does not lead its thread group, and that thread group when it does. No
  lookup changes the heap, whenever it returns.
\<close>

theorem lookups_total_and_pure:
  assumes ns: "pidNamespaces h a = Some ns" and ow: "owner ns = Some o'" and ts: "taskSets h o' = Some ts"
    and w: "\<not> writer (mu ts)"
  shows "TaskWithID h (Some a) tid = Returns (lookupPtr (tasks ns) tid, h)
    \<and> (tasks ns tid = None \<longrightarrow> TaskWithID h (Some a) tid = Returns (None, h))
    \<and> IDOfTask h (Some a) t = Returns (lookupID (tids ns) t, h)
    \<and> (tids ns t = None \<longrightarrow> IDOfTask h (Some a) t = Returns (0, h))
    \<and> (bimap ns \<and> t \<notin> ran (tasks ns) \<longrightarrow> IDOfTask h (Some a) t = Returns (0, h))
    \<and> (tids ns None = None \<longrightarrow> IDOfTask h (Some a) None = Returns (0, h))
    \<and> (pidnsInv h ns \<longrightarrow> IDOfTask h (Some a) None = Returns (0, h))
    \<and> IDOfThreadGroup h (Some a) g = Returns (lookupID (tgids ns) g, h)
    \<and> (tgids ns g = None \<longrightarrow> IDOfThreadGroup h (Some a) g = Returns (0, h))
    \<and> (lookupPtr (tasks ns) tid = None \<longrightarrow> ThreadGroupWithID h (Some a) tid = Returns (None, h))
    \<and> (tasks ns tid = Some (Some u) \<and> taskNodes h u = Some tn \<and> deref (threadGroups h) (tg tn) = Some n \<longrightarrow>
         ThreadGroupWithID h (Some a) tid = Returns (if leader n = Some u then tg tn else None, h))
    \<and> (\<forall>p x h'. TaskWithID h p tid = Returns (x, h') \<longrightarrow> h' = h)
    \<and> (\<forall>p x h'. ThreadGroupWithID h p tid = Returns (x, h') \<longrightarrow> h' = h)
    \<and> (\<forall>p x h'. IDOfTask h p t = Returns (x, h') \<longrightarrow> h' = h)
    \<and> (\<forall>p x h'. IDOfThreadGroup h p g = Returns (x, h') \<longrightarrow> h' = h)"
proof -
  note l = lookup_total [OF ns ow ts w]
  have unseen: "tids ns t = None" if "bimap ns" and "t \<notin> ran (tasks ns)"
  proof (cases "tids ns t")
    case (Some i)
    with that(1) have "tasks ns i = Some t" by (simp add: bimap_def)
    with that(2) show ?thesis by (simp add: ran_def)
  qed simp
  have absent: "tasks ns tid = None \<Longrightarrow> lookupPtr (tasks ns) tid = None"
    by (simp add: lookupPtr_def)
  show ?thesis
    using l(1) [of tid] l(2) [of t] l(2) [of None] l(3) [of g] unseen absent
      tgwid_absent [OF ns ow ts w, of tid] tgwid_present [OF ns ow ts w, of tid u tn n]
      lookups_pure(1) [of h _ tid] lookups_pure(2) [of h _ tid] lookups_pure(3) [of h _ t]
      lookups_pure(4) [of h _ g]
    by (auto simp add: lookupID_def pidnsInv_def)
qed

theorem lookups_total_and_pure_witness:
  "pidNamespaces exampleHeap 1 = Some exampleNS \<and> owner exampleNS = Some 2
   \<and> \<not> writer \<lparr>readers = 0, writer = False\<rparr>
   \<and> TaskWithID exampleHeap (Some 1) 5 = Returns (None, exampleHeap)
   \<and> TaskWithID exampleHeap (Some 1) 1 = Returns (Some 10, exampleHeap)
   \<and> IDOfTask exampleHeap (Some 1) (Some 11) = Returns (0, exampleHeap)
   \<and> IDOfTask exampleHeap (Some 1) None = Returns (0, exampleHeap)
   \<and> IDOfThreadGroup exampleHeap (Some 1) (Some 21) = Returns (0, exampleHeap)
   \<and> ThreadGroupWithID exampleHeap (Some 1) 5 = Returns (None, exampleHeap)"
proof -
  let ?ts = "\<lparr>mu = \<lparr>readers = 0, writer = False\<rparr>, Root = Some 1, stopCount = 0,
              liveTasks = 0, noNewTasksIfZeroLive = False\<rparr>"
  have h1: "pidNamespaces exampleHeap 1 = Some exampleNS"
    and h2: "owner exampleNS = Some 2"
    and h3: "taskSets exampleHeap 2 = Some ?ts"
    and h4: "\<not> writer (mu ?ts)"
    by (simp_all add: exampleHeap_def startHeap_def exampleNS_def)
  have maps: "tasks exampleNS 5 = None" "lookupPtr (tasks exampleNS) 1 = Some 10"
    "tids exampleNS (Some 11) = None" "tids exampleNS None = None" "tgids exampleNS (Some 21) = None"
    "lookupPtr (tasks exampleNS) 5 = None"
    by (simp_all add: exampleNS_def lookupPtr_def)
  show ?thesis
    using h1 h2 maps
      lookups_total_and_pure [OF h1 h2 h3 h4, of 5 "Some 11" "Some 21"]
      lookups_total_and_pure [OF h1 h2 h3 h4, of 1 None "Some 21"]
    by (simp add: lookupID_def)
qed

subsection \<open>Creating a child namespace\<close>

lemma word_succ_above:
  fixes x y :: "64 word"
  assumes "x \<le> y" and "y + 1 \<noteq> 0"
  shows "x \<noteq> y + 1 \<and> x \<le> y + 1"
proof -
  have "unat (y + 1) = Suc (unat y)"
    using unatSuc [of y] assms(2) by (simp add: add.commute)
  then show ?thesis
    using assms(1) by (auto simp add: word_le_nat_alt)
qed

lemma newPIDNamespace_issued:
  assumes "idsIssued h" and "lastPIDNSID h + 1 \<noteq> 0"
  shows "idsIssued (snd (newPIDNamespace h ts par uns a))"
  using assms word_succ_above [of _ "lastPIDNSID h"]
  by (auto simp add: idsIssued_def newPIDNamespace_def Let_def)

text \<open>
  C8. \<open>ns.NewChild(ctx, k, userns)\<close> on a namespace \<open>ns\<close> returns a new namespace, at
  an address no namespace had: its four bimaps are empty, \<open>last\<close> is 0 and \<open>exiting\<close>
  false, its parent is \<open>ns\<close>, its owner the owner of \<open>ns\<close>, its user namespace the
  given one; its \<open>id\<close> is the next value of the global counter, which is not zero and
  differs from the \<open>id\<close> of every namespace made before; and it has an inode, bound to
  it, whose type tag is \<open>''pid''\<close>. The other namespaces are as they were. The counter
  is a \<open>uint64\<close>: this holds as long as it has not wrapped around, every \<open>id\<close> so far
  having come from it.
\<close>

theorem NewChild_fresh_namespace:
  assumes ns: "pidNamespaces h n = Some ns" and fresh: "pidNamespaces h a = None"
    and issued: "idsIssued h" and room: "lastPIDNSID h + 1 \<noteq> 0"
  shows "\<exists>h' child ino.
      NewChild h (Some n) uns a i = Returns (Some a, h')
    \<and> pidNamespaces h' a = Some child
    \<and> tasks child = Map.empty \<and> tids child = Map.empty \<and> tgids child = Map.empty
    \<and> sessions child = Map.empty \<and> sids child = Map.empty
    \<and> processGroups child = Map.empty \<and> pgids child = Map.empty
    \<and> last' child = 0 \<and> \<not> exiting child
    \<and> parent child = Some n \<and> owner child = owner ns \<and> userns child = uns
    \<and> id' child = lastPIDNSID h + 1 \<and> lastPIDNSID h' = id' child \<and> id' child \<noteq> 0
    \<and> ID h' (Some a) = Returns (id' child)
    \<and> (\<forall>b m. pidNamespaces h b = Some m \<longrightarrow> id' m \<noteq> id' child)
    \<and> inode child = Some i \<and> inodes h' i = Some ino \<and> typeTag ino = ''pid'' \<and> namespace ino = Some a
    \<and> (\<forall>b. b \<noteq> a \<longrightarrow> pidNamespaces h' b = pidNamespaces h b)
    \<and> idsIssued h'"
proof -
  have older: "\<forall>b m. pidNamespaces h b = Some m \<longrightarrow>
      id' m \<noteq> 0 \<and> id' m \<noteq> lastPIDNSID h + 1 \<and> id' m \<le> lastPIDNSID h + 1"
    using issued word_succ_above [OF _ room] by (auto simp add: idsIssued_def)
  show ?thesis
    using ns fresh room older
    by (auto simp add: NewChild_def newPIDNamespace_def InitInode_def ID_def deref_def Type_def Let_def
        idsIssued_def)
qed

theorem NewChild_fresh_namespace_witness:
  "pidNamespaces exampleHeap 1 = Some exampleNS \<and> pidNamespaces exampleHeap 3 = None
   \<and> idsIssued exampleHeap \<and> lastPIDNSID exampleHeap + 1 \<noteq> 0
   \<and> (\<exists>h' child ino.
         NewChild exampleHeap (Some 1) (Some 7) 3 4 = Returns (Some 3, h')
       \<and> pidNamespaces h' 3 = Some child
       \<and> tasks child = Map.empty \<and> tids child = Map.empty \<and> tgids child = Map.empty
       \<and> last' child = 0 \<and> \<not> exiting child
       \<and> parent child = Some 1 \<and> owner child = Some 2 \<and> userns child = Some 7
       \<and> id' child = 2
       \<and> inode child = Some 4 \<and> inodes h' 4 = Some ino \<and> typeTag ino = ''pid'')"
proof -
  have h1: "pidNamespaces exampleHeap 1 = Some exampleNS"
    and h2: "pidNamespaces exampleHeap 3 = None"
    and h3: "idsIssued exampleHeap"
    and h4: "lastPIDNSID exampleHeap + 1 \<noteq> 0"
    by (simp_all add: exampleHeap_def startHeap_def exampleNS_def idsIssued_def)
  have o: "owner exampleNS = Some 2" by (simp add: exampleNS_def)
  have c: "lastPIDNSID exampleHeap + 1 = 2" by (simp add: exampleHeap_def startHeap_def)
  show ?thesis
    using h1 h2 h3 h4 NewChild_fresh_namespace [OF h1 h2 h3 h4, of "Some 7" 4]
    unfolding o c by blast
qed

subsection \<open>The bimap invariant\<close>

lemma nextFree_Some:
  "nextFree used n = Some m \<Longrightarrow> n \<le> m \<and> m \<le> maxTID \<and> \<not> used (of_nat m)"
proof (induction used n rule: nextFree.induct)
  case (1 used n)
  show ?case
  proof (cases "maxTID < n")
    case True
    with "1.prems" show ?thesis by (simp add: nextFree.simps [of used n])
  next
    case False
    show ?thesis
    proof (cases "used (of_nat n)")
      case True
      with False "1.prems" have "nextFree used (Suc n) = Some m"
        by (simp add: nextFree.simps [of used n])
      from "1.IH" [OF False True this] show ?thesis by simp
    next
      case unused: False
      with False "1.prems" show ?thesis by (simp add: nextFree.simps [of used n])
    qed
  qed
qed


lemma allocateTID_fresh:
  assumes "allocateTID ns = Some tid"
  shows "tid \<noteq> 0 \<and> tasks ns tid = None"
proof -
  from assms obtain m where m: "nextFree (\<lambda>tid. tasks ns tid \<noteq> None) (Suc (unat (last' ns))) = Some m"
    and tid: "tid = of_nat m"
    by (auto simp add: allocateTID_def)
  from nextFree_Some [OF m] have pos: "0 < m" and le: "m \<le> maxTID" and free: "tasks ns (of_nat m) = None"
    by auto
  have "m < 2 ^ 32" using le by (simp add: maxTID_def)
  then have "unat (of_nat m :: 32 word) = m"
    by (simp add: unat_of_nat)
  with pos have "(of_nat m :: 32 word) \<noteq> 0" by auto
  with free show ?thesis by (simp add: tid)
qed

lemma newPIDNamespace_inv:
  assumes "heapInv h"
  shows "heapInv (snd (newPIDNamespace h ts par uns a))"
  using assms
  by (auto simp add: heapInv_def wfGroups_def pidnsInv_def bimap_def tgidsAgree_def leaderOf_def
      newPIDNamespace_def Let_def)


lemma pidnsInv_frame:
  "pidnsInv h (ns\<lparr>inode := x\<rparr>) = pidnsInv h ns"
  "pidnsInv h (ns\<lparr>owner := y\<rparr>) = pidnsInv h ns"
  by (simp_all add: pidnsInv_def bimap_def tgidsAgree_def)

lemma pidnsInv_heap:
  "threadGroups h' = threadGroups h \<Longrightarrow> pidnsInv h' ns = pidnsInv h ns"
  by (simp add: pidnsInv_def tgidsAgree_def leaderOf_def)

lemma wfGroups_heap:
  "threadGroups h' = threadGroups h \<Longrightarrow> taskNodes h' = taskNodes h \<Longrightarrow> wfGroups h' = wfGroups h"
  by (simp add: wfGroups_def)

lemma heapInv_update:
  assumes inv: "heapInv h" and tgs: "threadGroups h' = threadGroups h" and tns: "taskNodes h' = taskNodes h"
    and nss: "\<And>b m. pidNamespaces h' b = Some m \<Longrightarrow> pidnsInv h m"
  shows "heapInv h'"
  using inv nss pidnsInv_heap [OF tgs] wfGroups_heap [OF tgs tns]
  by (simp add: heapInv_def)

lemma heapInv_ns: "heapInv h \<Longrightarrow> pidNamespaces h a = Some ns \<Longrightarrow> pidnsInv h ns"
  by (simp add: heapInv_def)

lemma InitInode_inv:
  assumes "heapInv h" and "InitInode h nsp i = Returns h'"
  shows "heapInv h'"
proof -
  from assms(2) obtain a ns where ns: "pidNamespaces h a = Some ns"
    and h': "h' = h\<lparr>inodes := (inodes h)(i \<mapsto> \<lparr>namespace = nsp, typeTag = Type ns\<rparr>),
                   pidNamespaces := (pidNamespaces h)(a \<mapsto> ns\<lparr>inode := Some i\<rparr>)\<rparr>"
    by (auto simp add: InitInode_def split: option.splits)
  show ?thesis
  proof (rule heapInv_update [OF assms(1)])
    fix b m assume "pidNamespaces h' b = Some m"
    then show "pidnsInv h m"
      using heapInv_ns [OF assms(1)] ns
      by (cases "b = a") (auto simp add: h' pidnsInv_frame)
  qed (simp_all add: h')
qed

lemma newTaskSet_inv:
  assumes "heapInv h" and "newTaskSet h p a = Returns (x, h')"
  shows "heapInv h'"
proof -
  from assms(2) obtain n ns ts where ns: "pidNamespaces h n = Some ns"
    and h': "h' = h\<lparr>taskSets := (taskSets h)(a \<mapsto> ts),
                   pidNamespaces := (pidNamespaces h)(n \<mapsto> ns\<lparr>owner := Some a\<rparr>)\<rparr>"
    by (auto simp add: newTaskSet_def split: option.splits)
  show ?thesis
  proof (rule heapInv_update [OF assms(1)])
    fix b m assume "pidNamespaces h' b = Some m"
    then show "pidnsInv h m"
      using heapInv_ns [OF assms(1)] ns
      by (cases "b = n") (auto simp add: h' pidnsInv_frame)
  qed (simp_all add: h')
qed

lemma NewChild_inv:
  assumes "heapInv h" and "NewChild h nsp uns a i = Returns (x, h')"
  shows "heapInv h'"
proof -
  from assms(2) have "\<exists>(ns :: PIDNamespace) q h1. newPIDNamespace h (owner ns) nsp uns a = (q, h1)
      \<and> InitInode h1 q i = Returns h'"
    by (auto simp add: NewChild_def Let_def split: option.splits prod.splits outcome.splits)
  then obtain ns :: PIDNamespace and q h1 where n: "newPIDNamespace h (owner ns) nsp uns a = (q, h1)"
    and i: "InitInode h1 q i = Returns h'"
    by blast
  from newPIDNamespace_inv [OF assms(1), of "owner ns" nsp uns a] n have "heapInv h1" by simp
  from InitInode_inv [OF this i] show ?thesis .
qed


lemma bimap_add:
  assumes "bimap ns" and "tids ns t = None" and "tasks ns tid = None" and "tid \<noteq> 0"
  shows "bimap (ns\<lparr>last' := tid, tasks := (tasks ns)(tid \<mapsto> t), tids := (tids ns)(t \<mapsto> tid), tgids := x\<rparr>)"
  using assms unfolding bimap_def by (simp, metis option.distinct(1) option.inject)

lemma bimap_inj:
  assumes "bimap ns" and "tids ns t = Some i" and "tids ns u = Some i"
  shows "t = u"
proof -
  from assms have "tasks ns i = Some t" "tasks ns i = Some u" by (simp_all add: bimap_def)
  then show ?thesis by simp
qed

lemma bimap_del:
  assumes "bimap ns"
  shows "bimap (ns\<lparr>tasks := (tasks ns)(lookupID (tids ns) t := None), tids := (tids ns)(t := None), tgids := x\<rparr>)"
proof (cases "tids ns t")
  case None
  then have "tasks ns 0 = None" using assms unfolding bimap_def by (metis not_Some_eq)
  then have "(tasks ns)(0 := None) = tasks ns" by (simp add: fun_upd_idem)
  with None assms show ?thesis unfolding bimap_def by (auto simp add: lookupID_def)
next
  case (Some tid0)
  with assms bimap_inj [OF assms] show ?thesis unfolding bimap_def by (auto simp add: lookupID_def)
qed

lemma leaderOf_isLeader:
  assumes "wfGroups h"
  shows "(leaderOf h gp = Some t) = (isLeader h t = gp \<and> gp \<noteq> None)"
proof
  assume l: "leaderOf h gp = Some t"
  then obtain g n where gp: "gp = Some g" and n: "threadGroups h g = Some n" and ld: "leader n = Some t"
    by (auto simp add: leaderOf_def deref_def split: option.splits)
  from assms n ld obtain tn where "taskNodes h t = Some tn" "tg tn = Some g"
    unfolding wfGroups_def by blast
  then show "isLeader h t = gp \<and> gp \<noteq> None"
    using n ld by (simp add: isLeader_def deref_def gp)
next
  assume "isLeader h t = gp \<and> gp \<noteq> None"
  then show "leaderOf h gp = Some t"
    by (auto simp add: isLeader_def leaderOf_def deref_def split: option.splits if_splits)
qed


lemma tgidsAgree_add:
  assumes wf: "wfGroups h" and agree: "tgidsAgree h ns" and new: "tids ns (Some t) = None"
  shows "tgidsAgree h
           (ns\<lparr>last' := tid, tasks := x, tids := (tids ns)(Some t \<mapsto> tid),
               tgids := (case isLeader h t of None \<Rightarrow> tgids ns | Some g \<Rightarrow> (tgids ns)(Some g \<mapsto> tid))\<rparr>)"
proof -
  have other: "tids ns (leaderOf h gp) = Some i \<Longrightarrow> leaderOf h gp \<noteq> Some t" for gp i
    using new by auto
  show ?thesis
    unfolding tgidsAgree_def
  proof (intro allI impI)
    fix gp i
    assume e: "tgids (ns\<lparr>last' := tid, tasks := x, tids := (tids ns)(Some t \<mapsto> tid),
               tgids := (case isLeader h t of None \<Rightarrow> tgids ns | Some g \<Rightarrow> (tgids ns)(Some g \<mapsto> tid))\<rparr>) gp = Some i"
    show "tids (ns\<lparr>last' := tid, tasks := x, tids := (tids ns)(Some t \<mapsto> tid),
               tgids := (case isLeader h t of None \<Rightarrow> tgids ns | Some g \<Rightarrow> (tgids ns)(Some g \<mapsto> tid))\<rparr>)
            (leaderOf h gp) = Some i"
    proof (cases "isLeader h t = gp \<and> gp \<noteq> None")
      case True
      then have "leaderOf h gp = Some t" using leaderOf_isLeader [OF wf] by simp
      with True e show ?thesis by auto
    next
      case False
      then have nl: "leaderOf h gp \<noteq> Some t" using leaderOf_isLeader [OF wf] by simp
      from False e have "tgids ns gp = Some i" by (auto split: option.splits if_splits)
      with agree have "tids ns (leaderOf h gp) = Some i" by (simp add: tgidsAgree_def)
      with nl show ?thesis by simp
    qed
  qed
qed

lemma tgidsAgree_del:
  assumes wf: "wfGroups h" and agree: "tgidsAgree h ns"
  shows "tgidsAgree h
           (ns\<lparr>tasks := x, tids := (tids ns)(Some t := None),
               tgids := (case isLeader h t of None \<Rightarrow> tgids ns | Some g \<Rightarrow> (tgids ns)(Some g := None))\<rparr>)"
  unfolding tgidsAgree_def
proof (intro allI impI)
  fix gp i
  assume e: "tgids (ns\<lparr>tasks := x, tids := (tids ns)(Some t := None),
               tgids := (case isLeader h t of None \<Rightarrow> tgids ns | Some g \<Rightarrow> (tgids ns)(Some g := None))\<rparr>) gp = Some i"
  then have old: "tgids ns gp = Some i" and notled: "\<not> (isLeader h t = gp \<and> gp \<noteq> None)"
    by (auto split: option.splits if_splits)
  from notled have "leaderOf h gp \<noteq> Some t" using leaderOf_isLeader [OF wf] by simp
  moreover from old agree have "tids ns (leaderOf h gp) = Some i" by (simp add: tgidsAgree_def)
  ultimately show "tids (ns\<lparr>tasks := x, tids := (tids ns)(Some t := None),
               tgids := (case isLeader h t of None \<Rightarrow> tgids ns | Some g \<Rightarrow> (tgids ns)(Some g := None))\<rparr>)
            (leaderOf h gp) = Some i"
    by simp
qed

lemma assignTID_inv:
  assumes inv: "heapInv h" and ret: "assignTID h a t = Returns (x, h')"
  shows "heapInv h'"
proof (cases x)
  case None
  with ret have "h' = h"
    by (auto simp add: assignTID_def split: option.splits if_splits)
  with inv show ?thesis by simp
next
  case (Some tid)
  from ret Some obtain ns where ns: "pidNamespaces h a = Some ns" and new: "tids ns (Some t) = None"
    and al: "allocateTID ns = Some tid"
    and h': "h' = h\<lparr>pidNamespaces := (pidNamespaces h)(a \<mapsto>
                     ns\<lparr>last' := tid,
                        tasks := (tasks ns)(tid \<mapsto> Some t),
                        tids := (tids ns)(Some t \<mapsto> tid),
                        tgids := (case isLeader h t of
                                    None \<Rightarrow> tgids ns
                                  | Some g \<Rightarrow> (tgids ns)(Some g \<mapsto> tid))\<rparr>)\<rparr>"
    by (auto simp add: assignTID_def split: option.splits if_splits)
  have wf: "wfGroups h" using inv by (simp add: heapInv_def)
  from heapInv_ns [OF inv ns] have b: "bimap ns" and g: "tgidsAgree h ns" and nn: "tids ns None = None"
    by (simp_all add: pidnsInv_def)
  from allocateTID_fresh [OF al] have fresh: "tid \<noteq> 0" "tasks ns tid = None" by simp_all
  have new_inv: "pidnsInv h
      (ns\<lparr>last' := tid, tasks := (tasks ns)(tid \<mapsto> Some t), tids := (tids ns)(Some t \<mapsto> tid),
          tgids := (case isLeader h t of None \<Rightarrow> tgids ns | Some g \<Rightarrow> (tgids ns)(Some g \<mapsto> tid))\<rparr>)"
    using bimap_add [OF b new fresh(2) fresh(1)] tgidsAgree_add [OF wf g new] nn
    by (simp add: pidnsInv_def)
  show ?thesis
  proof (rule heapInv_update [OF inv])
    fix b m assume "pidNamespaces h' b = Some m"
    then show "pidnsInv h m"
      using heapInv_ns [OF inv] new_inv by (cases "b = a") (auto simp add: h')
  qed (simp_all add: h')
qed

lemma deleteTask_inv:
  assumes inv: "heapInv h" and ret: "deleteTask h a t = Returns h'"
  shows "heapInv h'"
proof -
  from ret obtain ns where ns: "pidNamespaces h a = Some ns"
    and h': "h' = h\<lparr>pidNamespaces := (pidNamespaces h)(a \<mapsto>
                     ns\<lparr>tasks := (tasks ns)(lookupID (tids ns) (Some t) := None),
                        tids := (tids ns)(Some t := None),
                        tgids := (case isLeader h t of
                                    None \<Rightarrow> tgids ns
                                  | Some g \<Rightarrow> (tgids ns)(Some g := None))\<rparr>)\<rparr>"
    by (auto simp add: deleteTask_def split: option.splits)
  have wf: "wfGroups h" using inv by (simp add: heapInv_def)
  from heapInv_ns [OF inv ns] have b: "bimap ns" and g: "tgidsAgree h ns" and nn: "tids ns None = None"
    by (simp_all add: pidnsInv_def)
  have new_inv: "pidnsInv h
      (ns\<lparr>tasks := (tasks ns)(lookupID (tids ns) (Some t) := None), tids := (tids ns)(Some t := None),
          tgids := (case isLeader h t of None \<Rightarrow> tgids ns | Some g \<Rightarrow> (tgids ns)(Some g := None))\<rparr>)"
    using bimap_del [OF b] tgidsAgree_del [OF wf g] nn by (simp add: pidnsInv_def)
  show ?thesis
  proof (rule heapInv_update [OF inv])
    fix b m assume "pidNamespaces h' b = Some m"
    then show "pidnsInv h m"
      using heapInv_ns [OF inv] new_inv by (cases "b = a") (auto simp add: h')
  qed (simp_all add: h')
qed

lemma heapOf_Returns: "heapOf r = Returns h' \<Longrightarrow> \<exists>x. r = Returns (x, h')"
  by (auto simp add: heapOf_def split: outcome.splits)

lemma perform_inv:
  assumes inv: "heapInv h" and ret: "perform h x = Returns h'"
  shows "heapInv h'"
proof (cases x)
  case (DoNewRootPIDNamespace uns a)
  with ret newPIDNamespace_inv [OF inv, of None None uns a] show ?thesis
    by (auto simp add: NewRootPIDNamespace_def)
next
  case (DoNewTaskSet p a)
  with ret newTaskSet_inv [OF inv] show ?thesis by (auto dest!: heapOf_Returns)
next
  case (DoNewChild nsp uns a i)
  with ret NewChild_inv [OF inv] show ?thesis by (auto dest!: heapOf_Returns)
next
  case (DoInitInode nsp i)
  with ret InitInode_inv [OF inv] show ?thesis by auto
next
  case (DoTaskWithID nsp tid)
  with ret inv show ?thesis by (auto dest!: heapOf_Returns lookups_pure(1))
next
  case (DoThreadGroupWithID nsp tid)
  with ret inv show ?thesis by (auto dest!: heapOf_Returns lookups_pure(2))
next
  case (DoIDOfTask nsp t)
  with ret inv show ?thesis by (auto dest!: heapOf_Returns lookups_pure(3))
next
  case (DoIDOfThreadGroup nsp g)
  with ret inv show ?thesis by (auto dest!: heapOf_Returns lookups_pure(4))
next
  case (DoAssignTID a t)
  with ret assignTID_inv [OF inv] show ?thesis by (auto dest!: heapOf_Returns)
next
  case (DoDeleteTask a t)
  with ret deleteTask_inv [OF inv] show ?thesis by auto
qed

lemma run_inv: "heapInv h \<Longrightarrow> run h xs = Returns h' \<Longrightarrow> heapInv h'"
proof (induction xs arbitrary: h)
  case Nil
  then show ?case by simp
next
  case (Cons x xs)
  from Cons.prems(2) obtain h1 where p: "perform h x = Returns h1" and r: "run h1 xs = Returns h'"
    by (auto split: outcome.splits)
  from Cons.IH [OF perform_inv [OF Cons.prems(1) p] r] show ?case .
qed

lemma heapInv_empty: "heapInv emptyHeap"
  by (simp add: heapInv_def wfGroups_def emptyHeap_def)

lemma pidnsInv_reads:
  assumes "pidnsInv h ns"
  shows "(\<forall>t. (lookupID (tids ns) t \<noteq> 0) = (t \<in> ran (tasks ns)))
    \<and> (\<forall>tid t. (tasks ns tid = Some t) = (tids ns t = Some tid))
    \<and> (\<forall>g. g \<in> dom (tgids ns) \<longrightarrow> lookupID (tgids ns) g = lookupID (tids ns) (leaderOf h g))"
proof -
  from assms have b: "bimap ns" and g: "tgidsAgree h ns" by (simp_all add: pidnsInv_def)
  have one: "(lookupID (tids ns) t \<noteq> 0) = (t \<in> ran (tasks ns))" for t
  proof (cases "tids ns t")
    case None
    with b have "t \<notin> ran (tasks ns)" by (auto simp add: bimap_def ran_def)
    with None show ?thesis by (simp add: lookupID_def)
  next
    case (Some i)
    with b have "tasks ns i = Some t" and "i \<noteq> 0" by (auto simp add: bimap_def)
    with Some show ?thesis by (auto simp add: lookupID_def ran_def)
  qed
  have three: "lookupID (tgids ns) gp = lookupID (tids ns) (leaderOf h gp)" if "gp \<in> dom (tgids ns)" for gp
    using that g by (auto simp add: tgidsAgree_def lookupID_def)
  show ?thesis using one three b by (simp add: bimap_def)
qed

text \<open>
  C6. In every namespace of a heap in which the invariant holds, a task has a non-zero
  entry in \<open>tids\<close> exactly when it is a value of \<open>tasks\<close>, the two maps are inverse to
  each other, and every thread group with an entry in \<open>tgids\<close> has there the thread ID
  that \<open>tids\<close> gives to its leader. The invariant holds in the heap without namespaces,
  and every run of operations that returns keeps it: creating a root or a child
  namespace, its task set and its inode, the four lookups, admitting a task and reaping
  one.
\<close>

theorem pidns_bimap_invariant:
  "heapInv emptyHeap
   \<and> (heapInv h \<and> run h xs = Returns h' \<longrightarrow> heapInv h')
   \<and> (heapInv h \<and> pidNamespaces h a = Some ns \<longrightarrow>
        (\<forall>t. (lookupID (tids ns) t \<noteq> 0) = (t \<in> ran (tasks ns)))
      \<and> (\<forall>tid t. (tasks ns tid = Some t) = (tids ns t = Some tid))
      \<and> (\<forall>g. g \<in> dom (tgids ns) \<longrightarrow> lookupID (tgids ns) g = lookupID (tids ns) (leaderOf h g)))"
  using heapInv_empty run_inv [of h xs h'] pidnsInv_reads [of h ns] heapInv_ns [of h a ns]
  by blast

lemma startHeap_inv: "heapInv startHeap"
  by (auto simp add: heapInv_def wfGroups_def startHeap_def)

lemma allocate_first:
  "allocateTID
     \<lparr>owner = Some 2, parent = None, userns = None, id' = 1, last' = 0,
      tasks = Map.empty, tids = Map.empty, tgids = Map.empty,
      sessions = Map.empty, sids = Map.empty,
      processGroups = Map.empty, pgids = Map.empty,
      exiting = False, inode = None\<rparr> = Some 1"
  by (simp add: allocateTID_def nextFree.simps [of _ "Suc 0"] maxTID_def)

lemma run_to_exampleHeap:
  "run startHeap [DoNewRootPIDNamespace None 1, DoNewTaskSet (Some 1) 2, DoAssignTID 1 10]
     = Returns exampleHeap"
  by (simp add: NewRootPIDNamespace_def newPIDNamespace_def heapOf_def newTaskSet_def assignTID_def
      allocate_first isLeader_def deref_def TasksLimit_def exampleHeap_def exampleNS_def startHeap_def
      Let_def)

theorem pidns_bimap_invariant_witness:
  "heapInv startHeap
   \<and> run startHeap [DoNewRootPIDNamespace None 1, DoNewTaskSet (Some 1) 2, DoAssignTID 1 10]
       = Returns exampleHeap
   \<and> heapInv exampleHeap
   \<and> pidNamespaces exampleHeap 1 = Some exampleNS
   \<and> Some 20 \<in> dom (tgids exampleNS)
   \<and> lookupID (tgids exampleNS) (Some 20) = lookupID (tids exampleNS) (leaderOf exampleHeap (Some 20))"
proof -
  have ns: "pidNamespaces exampleHeap 1 = Some exampleNS"
    by (simp add: exampleHeap_def)
  have g: "Some 20 \<in> dom (tgids exampleNS)"
    by (simp add: exampleNS_def)
  have inv: "heapInv exampleHeap"
    using startHeap_inv run_to_exampleHeap
      pidns_bimap_invariant [of startHeap
        "[DoNewRootPIDNamespace None 1, DoNewTaskSet (Some 1) 2, DoAssignTID 1 10]" exampleHeap]
    by blast
  show ?thesis
    using startHeap_inv run_to_exampleHeap inv ns g
      pidns_bimap_invariant [of exampleHeap "[]" exampleHeap 1 exampleNS]
    by blast
qed

end
